theory Spec2Isabelle
  imports Complex_Main
begin

section \<open>Numbers\<close>

text \<open>
  JavaScript numbers are modelled as mathematical reals, and the operations below carry
  the exact values: rounding of IEEE-754 doubles (and of the 32-bit floats held in typed
  arrays) is left out of them. Where a property depends on that rounding (the zoom line
  of the camera rig) the computation is given a second time with every operation
  rounded to double precision. The one place where a quotient is formed from page
  geometry goes through \<open>js_div\<close>, which makes the zero divisor (where JavaScript
  yields \<open>Infinity\<close> or \<open>NaN\<close>, values outside the reals) an explicit \<open>None\<close>.
\<close>

definition js_div :: "real \<Rightarrow> real \<Rightarrow> real option" where
  "js_div a b = (if b = 0 then None else Some (a / b))"

section \<open>Camera rig (FarmbridgeVisualization.updateCameraOnScroll)\<close>

record camera =
  cam_pos_x :: real
  cam_pos_y :: real
  cam_pos_z :: real
  cam_rot_x :: real
  cam_rot_y :: real

text \<open>
  The body of \<open>updateCameraOnScroll\<close>, as a function of \<open>this.scrollProgress\<close> and the
  camera object it writes to.
\<close>

definition camera_on_scroll :: "real \<Rightarrow> camera \<Rightarrow> camera" where
  "camera_on_scroll scrollProgress c =
     (let maxRotation = pi * 2;
          maxZoom = 150;
          minZoom = 50
      in c\<lparr> cam_rot_x := scrollProgress * maxRotation * 0.3,
             cam_rot_y := scrollProgress * maxRotation * 0.5,
             cam_pos_z := minZoom + (maxZoom - minZoom) * (1 - scrollProgress),
             cam_pos_x := sin (scrollProgress * pi * 2) * 20,
             cam_pos_y := cos (scrollProgress * pi * 2) * 20 \<rparr>)"

subsection \<open>The zoom line in double precision\<close>

text \<open>
  \<open>camera_on_scroll\<close> carries the exact values of the expressions. The code evaluates
  them in IEEE-754 binary64, rounding the result of every operation to the nearest
  representable number, ties to the even significand. \<open>round_double\<close> is that rounding
  on the reals: 53 significant bits in the binade of the argument, the fixed spacing
  \<open>2^-1074\<close> below \<open>2^-1022\<close>. Overflow to \<open>Infinity\<close> is not represented; it does not
  arise from the magnitudes used here.
\<close>

definition round_half_even :: "real \<Rightarrow> int" where
  "round_half_even r =
     (let f = \<lfloor>r\<rfloor>
      in if r - of_int f < 1 / 2 then f
         else if r - of_int f > 1 / 2 then f + 1
         else if even f then f else f + 1)"

definition double_exponent :: "real \<Rightarrow> int" where
  "double_exponent x = max \<lfloor>log 2 \<bar>x\<bar>\<rfloor> (- 1022)"

definition double_ulp :: "real \<Rightarrow> real" where
  "double_ulp x = 2 powr (of_int (double_exponent x) - 52)"

definition round_double :: "real \<Rightarrow> real" where
  "round_double x =
     (if x = 0 then 0 else of_int (round_half_even (x / double_ulp x)) * double_ulp x)"

text \<open>
  \<open>this.camera.position.z = minZoom + (maxZoom - minZoom) * (1 - this.scrollProgress)\<close>
  as the code computes it: one rounding after each of the four operations.
\<close>

definition zoom_double :: "real \<Rightarrow> real" where
  "zoom_double scrollProgress =
     (let maxZoom = 150;
          minZoom = 50
      in round_double (minZoom + round_double (round_double (maxZoom - minZoom)
                                               * round_double (1 - scrollProgress))))"

section \<open>Scroll progress (the handler installed by setupScrollListener)\<close>

text \<open>
  \<open>scrollHeight = document.documentElement.scrollHeight - window.innerHeight\<close>, then
  \<open>scrollHeight > 0 ? window.scrollY / scrollHeight : 0\<close>. The conditional evaluates
  only the selected branch.
\<close>

definition scroll_progress :: "real \<Rightarrow> real \<Rightarrow> real \<Rightarrow> real option" where
  "scroll_progress docScrollHeight innerHeight scrollY =
     (let scrollHeight = docScrollHeight - innerHeight
      in if scrollHeight > 0 then js_div scrollY scrollHeight else Some 0)"

section \<open>Particle field (FarmbridgeVisualization.updateParticles)\<close>

text \<open>
  \<open>positions\<close> is the flat position buffer (three consecutive entries per particle) and
  \<open>velocity\<close> is \<open>this.particleVelocities\<close>. \<open>createParticles\<close> allocates both with
  \<open>3 * particleCount\<close> entries, so every index the loop touches is in range; the
  theorems below carry that as their hypothesis.
\<close>

text \<open>One iteration of the \<open>for (let i = 0; i < positions.length; i += 3)\<close> loop.\<close>

definition particle_body :: "nat \<Rightarrow> real list \<Rightarrow> real list \<Rightarrow> real list \<times> real list" where
  "particle_body i positions velocity =
     (let p1 = positions[i := positions ! i + velocity ! i];
          p2 = p1[i + 1 := p1 ! (i + 1) + velocity ! (i + 1)];
          p3 = p2[i + 2 := p2 ! (i + 2) + velocity ! (i + 2)];
          v1 = (if \<bar>p3 ! i\<bar> > 100 then velocity[i := velocity ! i * (- 1)] else velocity);
          v2 = (if \<bar>p3 ! (i + 1)\<bar> > 100 then v1[i + 1 := v1 ! (i + 1) * (- 1)] else v1);
          v3 = (if \<bar>p3 ! (i + 2)\<bar> > 100 then v2[i + 2 := v2 ! (i + 2) * (- 1)] else v2);
          v4 = v3[i + 1 := v3 ! (i + 1) - 0.0001]
      in (p3, v4))"

function particle_loop :: "nat \<Rightarrow> real list \<Rightarrow> real list \<Rightarrow> real list \<times> real list" where
  "particle_loop i positions velocity =
     (if i < length positions
      then particle_loop (i + 3) (fst (particle_body i positions velocity))
                                 (snd (particle_body i positions velocity))
      else (positions, velocity))"
  by pat_completeness auto
termination
  by (relation "measure (\<lambda>(i, positions, velocity). length positions - i)")
     (auto simp: particle_body_def Let_def)

declare particle_loop.simps [simp del]

section \<open>The visualization instance and the page it runs in\<close>

datatype element = Canvas | FallbackPanel

datatype signal = Scroll | Resize | VisibilityChange | BeforeUnload

datatype resource = Live | Disposed

datatype js_error = TypeError | SetupError | NonFinite

datatype setup_step =
    SetupScene | SetupCamera | SetupRenderer | SetupLighting
  | CreateParticles | CreateGeometries | SetupEventListeners | SetupScrollListener

record mesh =
  mesh_pos_x :: real
  mesh_pos_y :: real
  mesh_pos_z :: real
  mesh_rot_x :: real
  mesh_rot_y :: real
  mesh_rot_z :: real

record points =
  pts_positions :: "real list"
  pts_rot_x :: real
  pts_rot_y :: real
  pts_needsUpdate :: bool

record renderer_obj =
  rd_width :: real
  rd_height :: real
  rd_state :: resource

record config =
  particleCount :: nat
  particleSize :: real
  enableShadows :: bool
  pixelRatio :: real
  parallaxIntensity :: real
  cameraDistance :: real

text \<open>
  What the platform decides: the outcome of the capability check, the device class,
  whether \<open>#three-container\<close> exists, the window size at construction, the successive
  results of \<open>Math.random()\<close>, and which setup step (if any) fails with an exception
  raised by the rendering library at the start of that step.
\<close>

record env =
  env_webgl :: bool
  env_mobile :: bool
  env_has_container :: bool
  env_innerWidth :: real
  env_innerHeight :: real
  env_random :: "nat \<Rightarrow> real"
  env_throws :: "setup_step \<Rightarrow> bool"

text \<open>
  The fields of the single \<open>FarmbridgeVisualization\<close> instance (\<open>None\<close> is \<open>null\<close>),
  followed by the part of the browser it acts on: the pending animation-frame requests
  (by handle; every callback is \<open>() => this.animate()\<close>), the next handle to hand out,
  the event subscriptions currently attached, and the children this code has appended to
  \<open>#three-container\<close> (\<open>None\<close> when the page has no such element) and to the body.
\<close>

record world =
  scene :: "resource option"
  camera :: "camera option"
  cameraAspect :: "real option"
  renderer :: "renderer_obj option"
  particleSystem :: "points option"
  particleVelocities :: "real list"
  torus :: "mesh option"
  octahedron :: "mesh option"
  cube :: "mesh option"
  isMobile :: bool
  scrollProgress :: real
  initialized :: bool
  animationId :: "nat option"
  config :: config
  pending :: "nat list"
  next_id :: nat
  listeners :: "signal list"
  container :: "element list option"
  body :: "element list"

text \<open>
  An operation yields the state it leaves behind together with the exception that
  escaped it, if any: an exception does not roll back the updates made before it.
\<close>

type_synonym outcome = "js_error option \<times> world"

definition ok :: "world \<Rightarrow> outcome" where
  "ok w = (None, w)"

definition throw :: "js_error \<Rightarrow> world \<Rightarrow> outcome" where
  "throw e w = (Some e, w)"

definition then_do :: "outcome \<Rightarrow> (world \<Rightarrow> outcome) \<Rightarrow> outcome" where
  "then_do r f = (case r of (None, w) \<Rightarrow> f w | (Some e, w) \<Rightarrow> (Some e, w))"

subsection \<open>Frame scheduling\<close>

text \<open>
  \<open>requestAnimationFrame\<close> hands out a fresh non-zero handle and queues the callback;
  \<open>cancelAnimationFrame\<close> drops the request with that handle.
\<close>

definition requestAnimationFrame :: "world \<Rightarrow> nat \<times> world" where
  "requestAnimationFrame w =
     (next_id w, w\<lparr> pending := pending w @ [next_id w], next_id := next_id w + 1 \<rparr>)"

definition cancelAnimationFrame :: "nat \<Rightarrow> world \<Rightarrow> world" where
  "cancelAnimationFrame h w = w\<lparr> pending := removeAll h (pending w) \<rparr>"

subsection \<open>Per-frame update\<close>

definition updateParticles :: "world \<Rightarrow> world" where
  "updateParticles w =
     (case particleSystem w of
        None \<Rightarrow> w
      | Some ps \<Rightarrow>
          (let r = particle_loop 0 (pts_positions ps) (particleVelocities w)
           in w\<lparr> particleSystem := Some (ps\<lparr> pts_positions := fst r, pts_needsUpdate := True \<rparr>),
                  particleVelocities := snd r \<rparr>))"

definition rotate_torus :: "world \<Rightarrow> world" where
  "rotate_torus w =
     (case torus w of
        None \<Rightarrow> w
      | Some t \<Rightarrow> w\<lparr> torus := Some (t\<lparr> mesh_rot_x := mesh_rot_x t + 0.001,
                                          mesh_rot_y := mesh_rot_y t + 0.002 \<rparr>) \<rparr>)"

definition rotate_particleSystem :: "world \<Rightarrow> world" where
  "rotate_particleSystem w =
     (case particleSystem w of
        None \<Rightarrow> w
      | Some ps \<Rightarrow> w\<lparr> particleSystem := Some (ps\<lparr> pts_rot_x := pts_rot_x ps + 0.0001,
                                                     pts_rot_y := pts_rot_y ps + 0.0002 \<rparr>) \<rparr>)"

text \<open>
  \<open>animate\<close>: request the next frame first, then update, then draw. Drawing changes
  nothing that is modelled here, but \<open>this.renderer.render\<close> on a null renderer raises.
\<close>

definition animate :: "world \<Rightarrow> outcome" where
  "animate w =
     (let (h, w1) = requestAnimationFrame w;
          w2 = w1\<lparr> animationId := Some h \<rparr>;
          w3 = updateParticles w2;
          w4 = rotate_torus w3;
          w5 = rotate_particleSystem w4
      in case renderer w5 of None \<Rightarrow> throw TypeError w5 | Some r \<Rightarrow> ok w5)"

subsection \<open>Scroll-driven updates\<close>

definition updateCameraOnScroll :: "world \<Rightarrow> outcome" where
  "updateCameraOnScroll w =
     (case camera w of
        None \<Rightarrow> throw TypeError w
      | Some c \<Rightarrow> ok (w\<lparr> camera := Some (camera_on_scroll (scrollProgress w) c) \<rparr>))"

definition updateParallax :: "world \<Rightarrow> world" where
  "updateParallax w =
     (let p = scrollProgress w;
          k = parallaxIntensity (config w);
          w1 = (case torus w of
                  None \<Rightarrow> w
                | Some t \<Rightarrow> w\<lparr> torus := Some (t\<lparr> mesh_pos_y := sin (p * pi * 4) * 30 * k,
                                                    mesh_pos_x := cos (p * pi * 3) * 20 * k \<rparr>) \<rparr>);
          w2 = (case octahedron w1 of
                  None \<Rightarrow> w1
                | Some oc \<Rightarrow>
                    w1\<lparr> octahedron :=
                          Some (oc\<lparr> mesh_pos_y := mesh_pos_y oc + (p * 100 - mesh_pos_y oc) * 0.1,
                                    mesh_rot_x := mesh_rot_x oc + 0.003,
                                    mesh_rot_y := mesh_rot_y oc + 0.005 \<rparr>) \<rparr>)
      in (case cube w2 of
            None \<Rightarrow> w2
          | Some cb \<Rightarrow> w2\<lparr> cube := Some (cb\<lparr> mesh_pos_y := - 50 + p * 100,
                                              mesh_rot_x := mesh_rot_x cb + 0.002,
                                              mesh_rot_z := mesh_rot_z cb + 0.004 \<rparr>) \<rparr>))"

text \<open>
  The scroll handler, given the page geometry at the time of the event. A quotient that
  is not a finite number cannot be stored in the real-valued \<open>scrollProgress\<close>; that
  branch is kept apart as \<open>NonFinite\<close>.
\<close>

definition on_scroll :: "real \<Rightarrow> real \<Rightarrow> real \<Rightarrow> world \<Rightarrow> outcome" where
  "on_scroll docScrollHeight innerHeight scrollY w =
     (case scroll_progress docScrollHeight innerHeight scrollY of
        None \<Rightarrow> throw NonFinite w
      | Some p \<Rightarrow>
          then_do (updateCameraOnScroll (w\<lparr> scrollProgress := p \<rparr>))
                  (\<lambda>w'. ok (updateParallax w')))"

subsection \<open>Resize, pause, resume, visibility\<close>

definition onWindowResize :: "real \<Rightarrow> real \<Rightarrow> world \<Rightarrow> outcome" where
  "onWindowResize width height w =
     (case camera w of
        None \<Rightarrow> throw TypeError w
      | Some c \<Rightarrow>
          (let w1 = w\<lparr> cameraAspect := js_div width height \<rparr>
           in case renderer w1 of
                None \<Rightarrow> throw TypeError w1
              | Some r \<Rightarrow> ok (w1\<lparr> renderer := Some (r\<lparr> rd_width := width,
                                                          rd_height := height \<rparr>) \<rparr>)))"

definition pause :: "world \<Rightarrow> world" where
  "pause w =
     (case animationId w of
        None \<Rightarrow> w
      | Some h \<Rightarrow> if h \<noteq> 0 then cancelAnimationFrame h w else w)"

definition resume :: "world \<Rightarrow> outcome" where
  "resume w = (if initialized w then animate w else ok w)"

definition onVisibilityChange :: "bool \<Rightarrow> world \<Rightarrow> outcome" where
  "onVisibilityChange hidden w = (if hidden then ok (pause w) else resume w)"

subsection \<open>Mounting, fallback and destruction\<close>

text \<open>\<open>(document.getElementById('three-container') || document.body).appendChild(el)\<close>\<close>

definition mount :: "element \<Rightarrow> world \<Rightarrow> world" where
  "mount el w =
     (case container w of
        Some cs \<Rightarrow> w\<lparr> container := Some (cs @ [el]) \<rparr>
      | None \<Rightarrow> w\<lparr> body := body w @ [el] \<rparr>)"

definition handleWebGLFallback :: "world \<Rightarrow> world" where
  "handleWebGLFallback w = mount FallbackPanel w"

text \<open>
  \<open>destroy\<close>: pause, dispose the renderer and take its canvas out of the document,
  dispose what the scene holds. Nothing else is touched.
\<close>

definition destroy :: "world \<Rightarrow> world" where
  "destroy w =
     (let w1 = pause w;
          w2 = (case renderer w1 of
                  None \<Rightarrow> w1
                | Some r \<Rightarrow>
                    w1\<lparr> renderer := Some (r\<lparr> rd_state := Disposed \<rparr>),
                        container := map_option (remove1 Canvas) (container w1),
                        body := (if container w1 = None then remove1 Canvas (body w1)
                                 else body w1) \<rparr>)
      in case scene w2 of
           None \<Rightarrow> w2
         | Some sc \<Rightarrow> w2\<lparr> scene := Some Disposed \<rparr>)"

subsection \<open>Construction\<close>

definition make_config :: "bool \<Rightarrow> config" where
  "make_config mobile =
     \<lparr> particleCount = (if mobile then 500 else 1000),
       particleSize = (if mobile then 1.5 else 2),
       enableShadows = (\<not> mobile),
       pixelRatio = (if mobile then 0.75 else 1),
       parallaxIntensity = 0.5,
       cameraDistance = 100 \<rparr>"

definition setupScene :: "world \<Rightarrow> world" where
  "setupScene w = w\<lparr> scene := Some Live \<rparr>"

definition setupCamera :: "env \<Rightarrow> world \<Rightarrow> world" where
  "setupCamera e w =
     w\<lparr> camera := Some \<lparr> cam_pos_x = 0, cam_pos_y = 0, cam_pos_z = cameraDistance (config w),
                          cam_rot_x = 0, cam_rot_y = 0 \<rparr>,
        cameraAspect := js_div (env_innerWidth e) (env_innerHeight e) \<rparr>"

definition setupRenderer :: "env \<Rightarrow> world \<Rightarrow> world" where
  "setupRenderer e w =
     mount Canvas
       (w\<lparr> renderer := Some \<lparr> rd_width = env_innerWidth e, rd_height = env_innerHeight e,
                               rd_state = Live \<rparr> \<rparr>)"

text \<open>
  \<open>createParticles\<close> draws five random numbers per particle (three coordinates, hue,
  size) and then one per velocity component.
\<close>

definition createParticles :: "env \<Rightarrow> world \<Rightarrow> world" where
  "createParticles e w =
     (let n = particleCount (config w);
          positions = map (\<lambda>k. (env_random e (5 * (k div 3) + k mod 3) - 0.5) * 200) [0..<3 * n];
          velocities = map (\<lambda>k. (env_random e (5 * n + k) - 0.5) * 0.05) [0..<3 * n]
      in w\<lparr> particleSystem := Some \<lparr> pts_positions = positions, pts_rot_x = 0, pts_rot_y = 0,
                                      pts_needsUpdate = False \<rparr>,
             particleVelocities := velocities \<rparr>)"

definition createGeometries :: "world \<Rightarrow> world" where
  "createGeometries w =
     w\<lparr> torus := Some \<lparr> mesh_pos_x = 0, mesh_pos_y = 0, mesh_pos_z = - 50,
                         mesh_rot_x = 0, mesh_rot_y = 0, mesh_rot_z = 0 \<rparr>,
        octahedron := Some \<lparr> mesh_pos_x = - 60, mesh_pos_y = 40, mesh_pos_z = - 100,
                              mesh_rot_x = 0, mesh_rot_y = 0, mesh_rot_z = 0 \<rparr>,
        cube := Some \<lparr> mesh_pos_x = 60, mesh_pos_y = - 20, mesh_pos_z = - 80,
                        mesh_rot_x = 0, mesh_rot_y = 0, mesh_rot_z = 0 \<rparr> \<rparr>"

definition setupEventListeners :: "world \<Rightarrow> world" where
  "setupEventListeners w = w\<lparr> listeners := listeners w @ [Resize, VisibilityChange] \<rparr>"

definition setupScrollListener :: "world \<Rightarrow> world" where
  "setupScrollListener w = w\<lparr> listeners := listeners w @ [Scroll] \<rparr>"

fun run_step :: "env \<Rightarrow> setup_step \<Rightarrow> world \<Rightarrow> world" where
  "run_step e SetupScene w = setupScene w"
| "run_step e SetupCamera w = setupCamera e w"
| "run_step e SetupRenderer w = setupRenderer e w"
| "run_step e SetupLighting w = w"
| "run_step e CreateParticles w = createParticles e w"
| "run_step e CreateGeometries w = createGeometries w"
| "run_step e SetupEventListeners w = setupEventListeners w"
| "run_step e SetupScrollListener w = setupScrollListener w"

fun run_steps :: "env \<Rightarrow> setup_step list \<Rightarrow> world \<Rightarrow> outcome" where
  "run_steps e [] w = ok w"
| "run_steps e (st # sts) w =
     (if env_throws e st then throw SetupError w else run_steps e sts (run_step e st w))"

definition isWebGLSupported :: "env \<Rightarrow> bool" where
  "isWebGLSupported e = env_webgl e"

text \<open>The body of the \<open>try\<close> in \<open>init\<close>, after the capability check.\<close>

definition init_try :: "env \<Rightarrow> world \<Rightarrow> outcome" where
  "init_try e w =
     then_do (run_steps e [SetupScene, SetupCamera, SetupRenderer, SetupLighting,
                           CreateParticles, CreateGeometries, SetupEventListeners,
                           SetupScrollListener] w)
             (\<lambda>w'. animate (w'\<lparr> initialized := True \<rparr>))"

definition init :: "env \<Rightarrow> world \<Rightarrow> world" where
  "init e w =
     (if \<not> isWebGLSupported e then handleWebGLFallback w
      else case init_try e w of
             (None, w') \<Rightarrow> w'
           | (Some err, w') \<Rightarrow> handleWebGLFallback w')"

text \<open>
  The page before the instance exists: only the module-level \<open>beforeunload\<close>
  subscription is attached, nothing is mounted, no frame is pending.
\<close>

definition new_page :: "env \<Rightarrow> world" where
  "new_page e =
     \<lparr> scene = None, camera = None, cameraAspect = None, renderer = None,
       particleSystem = None, particleVelocities = [], torus = None, octahedron = None,
       cube = None, isMobile = env_mobile e, scrollProgress = 0, initialized = False,
       animationId = None, config = make_config (env_mobile e),
       pending = [], next_id = 1, listeners = [BeforeUnload],
       container = (if env_has_container e then Some [] else None), body = [] \<rparr>"

text \<open>\<open>new FarmbridgeVisualization()\<close> on the freshly loaded page.\<close>

definition constructor :: "env \<Rightarrow> world" where
  "constructor e = init e (new_page e)"

subsection \<open>Signals delivered by the browser\<close>

datatype event =
    FrameEv
  | ScrollEv real real real
  | ResizeEv real real
  | VisibilityEv bool
  | BeforeUnloadEv

fun repeat :: "nat \<Rightarrow> (world \<Rightarrow> outcome) \<Rightarrow> world \<Rightarrow> outcome" where
  "repeat 0 f w = ok w"
| "repeat (Suc n) f w = then_do (f w) (repeat n f)"

text \<open>
  A frame runs the callbacks of the requests pending at its start (requests made while
  it runs wait for the next frame). Any other signal runs its handler once for each
  subscription of that kind that is attached; the \<open>beforeunload\<close> handler calls
  \<open>destroy\<close> on the instance.
\<close>

fun dispatch :: "event \<Rightarrow> world \<Rightarrow> outcome" where
  "dispatch FrameEv w = repeat (length (pending w)) animate (w\<lparr> pending := [] \<rparr>)"
| "dispatch (ScrollEv docScrollHeight innerHeight scrollY) w =
     repeat (count_list (listeners w) Scroll) (on_scroll docScrollHeight innerHeight scrollY) w"
| "dispatch (ResizeEv width height) w =
     repeat (count_list (listeners w) Resize) (onWindowResize width height) w"
| "dispatch (VisibilityEv hidden) w =
     repeat (count_list (listeners w) VisibilityChange) (onVisibilityChange hidden) w"
| "dispatch BeforeUnloadEv w =
     repeat (count_list (listeners w) BeforeUnload) (\<lambda>w'. ok (destroy w')) w"

section \<open>HTTP helper (API.request in script.js)\<close>

definition maxRetries :: nat where
  "maxRetries = 3"

definition retryDelay :: nat where
  "retryDelay = 1000"

text \<open>
  A response carries its status and, when its body parses, the parsed JSON; \<open>fetch\<close>
  itself may reject. The network is a function from the number of \<open>fetch\<close> calls made
  so far to what the next call yields. The payload is absent (or falsy), serialisable,
  or makes \<open>JSON.stringify\<close> raise.
\<close>

record 'j response =
  resp_status :: nat
  resp_json :: "'j option"

datatype payload = NoData | Data | Unserialisable

datatype api_error = StringifyFailed | FetchRejected | HttpError nat | BodyNotJson

record api_state =
  fetches :: nat
  waited :: nat

definition resp_ok :: "'j response \<Rightarrow> bool" where
  "resp_ok r = (200 \<le> resp_status r \<and> resp_status r \<le> 299)"

text \<open>
  What one \<open>fetch\<close> settles to: a rejection, a response that is not \<open>ok\<close>, a body
  that \<open>response.json()\<close> rejects, or the parsed JSON.
\<close>

definition settle :: "'j response option \<Rightarrow> api_error + 'j" where
  "settle res =
     (case res of
        None \<Rightarrow> Inl FetchRejected
      | Some r \<Rightarrow>
          if \<not> resp_ok r then Inl (HttpError (resp_status r))
          else (case resp_json r of None \<Rightarrow> Inl BodyNotJson | Some j \<Rightarrow> Inr j))"

text \<open>The body of the \<open>try\<close>: one attempt. Serialising the payload comes before \<open>fetch\<close>.\<close>

definition attempt ::
  "(nat \<Rightarrow> 'j response option) \<Rightarrow> payload \<Rightarrow> api_state \<Rightarrow> (api_error + 'j) \<times> api_state" where
  "attempt net data st =
     (if data = Unserialisable then (Inl StringifyFailed, st)
      else (settle (net (fetches st)), st\<lparr> fetches := fetches st + 1 \<rparr>))"

function request ::
  "(nat \<Rightarrow> 'j response option) \<Rightarrow> payload \<Rightarrow> nat \<Rightarrow> api_state \<Rightarrow> (api_error + 'j) \<times> api_state" where
  "request net data retries st =
     (case attempt net data st of
        (Inr j, st') \<Rightarrow> (Inr j, st')
      | (Inl err, st') \<Rightarrow>
          if retries < maxRetries
          then request net data (retries + 1) (st'\<lparr> waited := waited st' + retryDelay \<rparr>)
          else (Inl err, st'))"
  by pat_completeness auto
termination
  by (relation "measure (\<lambda>(net, data, retries, st). maxRetries - retries)") auto

declare request.simps [simp del]

text \<open>\<open>API.get\<close>, \<open>post\<close>, \<open>put\<close> and \<open>delete\<close> all call \<open>request\<close> with \<open>retries\<close> left at 0.\<close>

definition api_call :: "(nat \<Rightarrow> 'j response option) \<Rightarrow> payload \<Rightarrow> (api_error + 'j) \<times> api_state" where
  "api_call net data = request net data 0 \<lparr> fetches = 0, waited = 0 \<rparr>"

section \<open>Local-storage helper (Storage in script.js)\<close>

text \<open>
  JavaScript values, as far as \<open>JSON.stringify\<close> tells them apart. Numbers are reals;
  negative zero and the three non-finite numbers are separate constructors. Values on
  which \<open>JSON.stringify\<close> raises (cyclic structures, BigInt) are not among them.
\<close>

datatype jsval =
    Undefined | Null | Boolean bool | Number real | NegZero | NaN | PosInfinity | NegInfinity
  | String string | Array "jsval list" | Object "(string \<times> jsval) list" | Function

text \<open>
  What \<open>JSON.parse (JSON.stringify v)\<close> yields: \<open>None\<close> when \<open>JSON.stringify\<close> produces
  no text (\<open>undefined\<close>, a function). Inside an array such an entry becomes \<open>null\<close>,
  inside an object the property is left out; non-finite numbers become \<open>null\<close> and
  negative zero becomes 0.
\<close>

fun json_image :: "jsval \<Rightarrow> jsval option" where
  "json_image Undefined = None"
| "json_image Function = None"
| "json_image Null = Some Null"
| "json_image (Boolean b) = Some (Boolean b)"
| "json_image (Number r) = Some (Number r)"
| "json_image NegZero = Some (Number 0)"
| "json_image NaN = Some Null"
| "json_image PosInfinity = Some Null"
| "json_image NegInfinity = Some Null"
| "json_image (String s) = Some (String s)"
| "json_image (Array xs) =
     Some (Array (map (\<lambda>x. case json_image x of None \<Rightarrow> Null | Some j \<Rightarrow> j) xs))"
| "json_image (Object kvs) =
     Some (Object (concat (map (\<lambda>kv. case json_image (snd kv) of
                                        None \<Rightarrow> []
                                      | Some j \<Rightarrow> [(fst kv, j)]) kvs)))"

text \<open>
  A string held by \<open>localStorage\<close> is represented by what \<open>JSON.parse\<close> makes of it:
  the empty string, a text that \<open>JSON.parse\<close> rejects, or a text that parses to a value.
\<close>

datatype stored = EmptyText | Malformed | Json jsval

type_synonym storage = "string \<rightharpoonup> stored"

text \<open>
  \<open>localStorage\<close> itself: either the page may not use it, and every access raises a
  \<open>SecurityError\<close>, or it holds items. A write can also be refused for lack of space;
  whether a text fits beside the items already held is the browser's decision, passed
  in as \<open>fits\<close>.
\<close>

datatype local_storage = Blocked | Items storage

datatype storage_exn = SyntaxErr | TypeErr | SecurityErr | QuotaExceededErr

definition getItem :: "string \<Rightarrow> local_storage \<Rightarrow> storage_exn + stored option" where
  "getItem key ls = (case ls of Blocked \<Rightarrow> Inl SecurityErr | Items m \<Rightarrow> Inr (m key))"

definition setItem ::
  "(storage \<Rightarrow> string \<Rightarrow> stored \<Rightarrow> bool) \<Rightarrow> string \<Rightarrow> stored \<Rightarrow> local_storage
     \<Rightarrow> storage_exn + local_storage" where
  "setItem fits key text ls =
     (case ls of
        Blocked \<Rightarrow> Inl SecurityErr
      | Items m \<Rightarrow> if fits m key text then Inr (Items (m(key \<mapsto> text)))
                   else Inl QuotaExceededErr)"

definition removeItem :: "string \<Rightarrow> local_storage \<Rightarrow> storage_exn + local_storage" where
  "removeItem key ls =
     (case ls of Blocked \<Rightarrow> Inl SecurityErr | Items m \<Rightarrow> Inr (Items (m(key := None))))"

definition JSON_stringify :: "jsval \<Rightarrow> stored" where
  "JSON_stringify v = (case json_image v of None \<Rightarrow> Malformed | Some j \<Rightarrow> Json j)"

definition JSON_parse :: "stored \<Rightarrow> storage_exn + jsval" where
  "JSON_parse t = (case t of Json v \<Rightarrow> Inr v | _ \<Rightarrow> Inl SyntaxErr)"

definition truthy :: "jsval \<Rightarrow> bool" where
  "truthy v = (case v of
                 Undefined \<Rightarrow> False | Null \<Rightarrow> False | NaN \<Rightarrow> False | NegZero \<Rightarrow> False
               | Boolean b \<Rightarrow> b | Number r \<Rightarrow> r \<noteq> 0 | String s \<Rightarrow> s \<noteq> []
               | _ \<Rightarrow> True)"

text \<open>
  Reading the property \<open>expiry\<close> or \<open>value\<close>: a \<open>TypeError\<close> on \<open>null\<close> and \<open>undefined\<close>,
  the own property of an object, \<open>undefined\<close> on anything else.
\<close>

definition get_prop :: "jsval \<Rightarrow> string \<Rightarrow> storage_exn + jsval" where
  "get_prop v name =
     (case v of
        Undefined \<Rightarrow> Inl TypeErr
      | Null \<Rightarrow> Inl TypeErr
      | Object kvs \<Rightarrow> Inr (case map_of kvs name of None \<Rightarrow> Undefined | Some x \<Rightarrow> x)
      | _ \<Rightarrow> Inr Undefined)"

text \<open>
  \<open>Date.now() > x\<close>. For a number the comparison is that of the reals; any other value
  is first converted by the platform's \<open>ToNumber\<close>, passed in as \<open>to_number\<close> (\<open>None\<close>
  for \<open>NaN\<close>, which compares false).
\<close>

definition now_after :: "(jsval \<Rightarrow> real option) \<Rightarrow> real \<Rightarrow> jsval \<Rightarrow> bool" where
  "now_after to_number now x =
     (case x of
        Number r \<Rightarrow> now > r
      | _ \<Rightarrow> (case to_number x of None \<Rightarrow> False | Some r \<Rightarrow> now > r))"

definition Storage_remove :: "string \<Rightarrow> local_storage \<Rightarrow> storage_exn + local_storage" where
  "Storage_remove key ls = removeItem key ls"

text \<open>
  \<open>Storage.set(key, value, expiryMinutes)\<close> at time \<open>now\<close>; \<open>expiryMinutes\<close> is \<open>None\<close>
  when it is left out. \<open>setItem\<close> stores the text \<open>JSON.stringify\<close> returns; nothing
  catches what \<open>setItem\<close> raises.
\<close>

definition Storage_set ::
  "(storage \<Rightarrow> string \<Rightarrow> stored \<Rightarrow> bool) \<Rightarrow> string \<Rightarrow> jsval \<Rightarrow> real option \<Rightarrow> real
     \<Rightarrow> local_storage \<Rightarrow> storage_exn + local_storage" where
  "Storage_set fits key v expiryMinutes now ls =
     (let data = [(''value'', v)];
          data' = (case expiryMinutes of
                     None \<Rightarrow> data
                   | Some m \<Rightarrow> if m \<noteq> 0 then data @ [(''expiry'', Number (now + m * 60 * 1000))]
                               else data)
      in setItem fits key (JSON_stringify (Object data')) ls)"

text \<open>The body of the \<open>try\<close> in \<open>Storage.get\<close>, on the text \<open>item\<close> read for \<open>key\<close>.\<close>

definition get_try ::
  "(jsval \<Rightarrow> real option) \<Rightarrow> string \<Rightarrow> stored \<Rightarrow> real \<Rightarrow> local_storage
     \<Rightarrow> storage_exn + (jsval \<times> local_storage)" where
  "get_try to_number key item now ls =
     (case JSON_parse item of
        Inl e \<Rightarrow> Inl e
      | Inr data \<Rightarrow>
          (case get_prop data ''expiry'' of
             Inl e \<Rightarrow> Inl e
           | Inr expiry \<Rightarrow>
               if truthy expiry \<and> now_after to_number now expiry
               then (case Storage_remove key ls of
                       Inl e \<Rightarrow> Inl e
                     | Inr ls' \<Rightarrow> Inr (Null, ls'))
               else (case get_prop data ''value'' of
                       Inl e \<Rightarrow> Inl e
                     | Inr x \<Rightarrow> Inr (x, ls))))"

text \<open>
  \<open>Storage.get(key)\<close> at time \<open>now\<close>: the value returned and the storage left behind,
  or the exception that escapes. \<open>localStorage.getItem(key)\<close> is called before the
  \<open>try\<close>, so what it raises escapes; what the body of the \<open>try\<close> raises is caught and
  turned into \<open>null\<close>.
\<close>

definition Storage_get ::
  "(jsval \<Rightarrow> real option) \<Rightarrow> string \<Rightarrow> real \<Rightarrow> local_storage
     \<Rightarrow> storage_exn + (jsval \<times> local_storage)" where
  "Storage_get to_number key now ls =
     (case getItem key ls of
        Inl e \<Rightarrow> Inl e
      | Inr None \<Rightarrow> Inr (Null, ls)
      | Inr (Some item) \<Rightarrow>
          if item = EmptyText then Inr (Null, ls)
          else (case get_try to_number key item now ls of
                  Inr r \<Rightarrow> Inr r
                | Inl e \<Rightarrow> Inr (Null, ls)))"

section \<open>Observations and example pages\<close>

text \<open>The position buffer of the particle system (empty while there is none).\<close>

definition positions_of :: "world \<Rightarrow> real list" where
  "positions_of w = (case particleSystem w of None \<Rightarrow> [] | Some ps \<Rightarrow> pts_positions ps)"

text \<open>
  The shape \<open>createParticles\<close> gives the two buffers: both present, of equal length,
  three entries per particle.
\<close>

definition particles_wf :: "world \<Rightarrow> bool" where
  "particles_wf w =
     (particleSystem w \<noteq> None \<and> length (particleVelocities w) = length (positions_of w)
      \<and> 3 dvd length (positions_of w))"

text \<open>
  A desktop page with WebGL and a container, on which \<open>Math.random()\<close> returns 1/2
  except for the second coordinate of the first particle (draw 1, giving
  \<open>y = -99.99995\<close>) and its vertical velocity (draw 5001, giving \<open>-0.00012\<close>).
\<close>

definition sinking_env :: env where
  "sinking_env =
     \<lparr> env_webgl = True, env_mobile = False, env_has_container = True,
       env_innerWidth = 1280, env_innerHeight = 720,
       env_random = (\<lambda>k. if k = 1 then 1 / 4000000 else if k = 5001 then 311 / 625 else 1 / 2),
       env_throws = (\<lambda>st. False) \<rparr>"

text \<open>The instance right after \<open>createParticles\<close> on that page.\<close>

definition sinking_start :: world where
  "sinking_start = createParticles sinking_env (new_page sinking_env)"

text \<open>A phone without WebGL and without \<open>#three-container\<close>.\<close>

definition no_webgl_env :: env where
  "no_webgl_env =
     \<lparr> env_webgl = False, env_mobile = True, env_has_container = False,
       env_innerWidth = 390, env_innerHeight = 844,
       env_random = (\<lambda>k. 1 / 2), env_throws = (\<lambda>st. False) \<rparr>"

text \<open>
  The instance when the eight setup steps of \<open>init\<close> have run on a fresh page and
  \<open>initialized\<close> has been set, just before the first call of \<open>animate\<close>.
\<close>

definition setup_done :: "env \<Rightarrow> world" where
  "setup_done e =
     (setupScrollListener (setupEventListeners (createGeometries (createParticles e
        (setupRenderer e (setupCamera e (setupScene (new_page e))))))))\<lparr> initialized := True \<rparr>"

text \<open>
  The values \<open>JSON.stringify\<close> and \<open>JSON.parse\<close> carry unchanged: \<open>null\<close>, booleans,
  finite numbers other than negative zero, strings, and arrays and objects built from
  these.
\<close>

fun json_exact :: "jsval \<Rightarrow> bool" where
  "json_exact Null = True"
| "json_exact (Boolean b) = True"
| "json_exact (Number r) = True"
| "json_exact (String s) = True"
| "json_exact (Array xs) = list_all json_exact xs"
| "json_exact (Object kvs) = list_all (\<lambda>kv. json_exact (snd kv)) kvs"
| "json_exact v = False"

text \<open>
  Whether an entry written at time \<open>now\<close> with \<open>expiryMinutes\<close> is found expired by
  \<open>Storage.get\<close> at time \<open>now'\<close>: an expiry was stored (\<open>expiryMinutes\<close> given and not
  0), the stored timestamp is truthy (not 0) and lies strictly before \<open>now'\<close>.
\<close>

definition set_expired :: "real option \<Rightarrow> real \<Rightarrow> real \<Rightarrow> bool" where
  "set_expired expiryMinutes now now' =
     (case expiryMinutes of
        None \<Rightarrow> False
      | Some m \<Rightarrow> m \<noteq> 0 \<and> now + m * 60 * 1000 \<noteq> 0 \<and> now + m * 60 * 1000 < now')"

text \<open>The text \<open>Storage.set\<close> hands to \<open>setItem\<close> for a value and an expiry.\<close>

definition entry_of :: "jsval \<Rightarrow> real option \<Rightarrow> real \<Rightarrow> stored" where
  "entry_of v expiryMinutes now =
     Json (Object ((case json_image v of None \<Rightarrow> [] | Some j \<Rightarrow> [(''value'', j)])
        @ (case expiryMinutes of None \<Rightarrow> []
           | Some m \<Rightarrow> if m \<noteq> 0 then [(''expiry'', Number (now + m * 60 * 1000))] else [])))"

section \<open>Properties of the camera rig\<close>

lemma camera_on_scroll_fields:
  "cam_rot_x (camera_on_scroll p c) = p * (pi * 2) * 0.3"
  "cam_rot_y (camera_on_scroll p c) = p * (pi * 2) * 0.5"
  "cam_pos_z (camera_on_scroll p c) = 50 + (150 - 50) * (1 - p)"
  "cam_pos_x (camera_on_scroll p c) = sin (p * pi * 2) * 20"
  "cam_pos_y (camera_on_scroll p c) = cos (p * pi * 2) * 20"
  by (simp_all add: camera_on_scroll_def Let_def)

lemma updateCameraOnScroll_camera:
  "camera w = Some c \<Longrightarrow>
   updateCameraOnScroll w = ok (w\<lparr> camera := Some (camera_on_scroll (scrollProgress w) c) \<rparr>)"
  by (simp add: updateCameraOnScroll_def)

text \<open>
  C2, as stated: at scroll progress 0 the camera ends at rotation (0, 0) and position
  (0, 0, 150). On the camera that \<open>setupCamera\<close> creates, the vertical position after
  the update is 20, not 0: \<open>position.y = cos(0) * 20\<close>.
\<close>

theorem camera_at_progress_zero_counterexample:
  "cam_pos_y (camera_on_scroll 0
      \<lparr> cam_pos_x = 0, cam_pos_y = 0, cam_pos_z = 100, cam_rot_x = 0, cam_rot_y = 0 \<rparr>) = 20
   \<and> \<not> (cam_pos_y (camera_on_scroll 0
      \<lparr> cam_pos_x = 0, cam_pos_y = 0, cam_pos_z = 100, cam_rot_x = 0, cam_rot_y = 0 \<rparr>) = 0)"
  by (simp add: camera_on_scroll_def)

text \<open>
  C2, amended: when scroll progress is 0, \<open>updateCameraOnScroll\<close> does not raise and sets
  the camera to rotation (0, 0) and position (0, 20, 150), whatever the camera was before.
\<close>

theorem camera_at_progress_zero:
  "updateCameraOnScroll (w\<lparr> scrollProgress := 0, camera := Some c \<rparr>)
     = ok (w\<lparr> scrollProgress := 0,
                camera := Some \<lparr> cam_pos_x = 0, cam_pos_y = 20, cam_pos_z = 150,
                                  cam_rot_x = 0, cam_rot_y = 0 \<rparr> \<rparr>)"
  by (cases c) (simp add: updateCameraOnScroll_def camera_on_scroll_def)

subsection \<open>Rounding to double precision\<close>

lemma round_half_even_bounds:
  "of_int (round_half_even r) \<le> r + 1 / 2" "r - 1 / 2 \<le> of_int (round_half_even r)"
  by (auto simp: round_half_even_def Let_def) linarith+

lemma round_half_even_int [simp]: "round_half_even (of_int n) = n"
  by (simp add: round_half_even_def)

lemma round_half_even_mono:
  assumes "r \<le> s"
  shows "round_half_even r \<le> round_half_even s"
proof (cases "\<lfloor>r\<rfloor> = \<lfloor>s\<rfloor>")
  case True
  then show ?thesis using assms by (auto simp: round_half_even_def Let_def)
next
  case False
  then have lt: "\<lfloor>r\<rfloor> < \<lfloor>s\<rfloor>" using floor_mono [OF assms] by simp
  have a: "round_half_even r \<le> \<lfloor>r\<rfloor> + 1" by (auto simp: round_half_even_def Let_def)
  have b: "\<lfloor>s\<rfloor> \<le> round_half_even s" by (auto simp: round_half_even_def Let_def)
  from a b lt show ?thesis by linarith
qed

lemma double_ulp_pos [simp]: "0 < double_ulp x"
  by (simp add: double_ulp_def)

lemma double_ulp_nonneg [simp]: "0 \<le> double_ulp x"
  by (simp add: double_ulp_def)

lemma double_ulp_neq0 [simp]: "double_ulp x \<noteq> 0"
  by (simp add: double_ulp_def)

lemma round_double_error: "\<bar>round_double x - x\<bar> \<le> double_ulp x / 2"
proof (cases "x = 0")
  case True
  then show ?thesis using less_imp_le [OF double_ulp_pos [of 0]] by (simp add: round_double_def)
next
  case False
  let ?u = "double_ulp x"
  have "\<bar>of_int (round_half_even (x / ?u)) - x / ?u\<bar> \<le> 1 / 2"
    using round_half_even_bounds [of "x / ?u"] by linarith
  then have "\<bar>of_int (round_half_even (x / ?u)) - x / ?u\<bar> * ?u \<le> 1 / 2 * ?u"
    by (rule mult_right_mono) simp
  moreover have "\<bar>of_int (round_half_even (x / ?u)) - x / ?u\<bar> * ?u
      = \<bar>of_int (round_half_even (x / ?u)) * ?u - x\<bar>"
  proof -
    have "\<bar>of_int (round_half_even (x / ?u)) - x / ?u\<bar> * ?u
        = \<bar>(of_int (round_half_even (x / ?u)) - x / ?u) * ?u\<bar>"
      by (simp add: abs_mult)
    also have "(of_int (round_half_even (x / ?u)) - x / ?u) * ?u
        = of_int (round_half_even (x / ?u)) * ?u - x"
      by (simp add: left_diff_distrib)
    finally show ?thesis .
  qed
  ultimately show ?thesis using False by (simp add: round_double_def)
qed


lemma floor_log2_bounds:
  assumes "0 < x"
  shows "2 powr of_int \<lfloor>log 2 x\<rfloor> \<le> x" "x < 2 powr (of_int \<lfloor>log 2 x\<rfloor> + 1)"
  using floor_log_eq_powr_iff [of x 2 "\<lfloor>log 2 x\<rfloor>"] assms by simp_all

lemma double_exponent_upper:
  assumes "0 < x"
  shows "x < 2 powr (of_int (double_exponent x) + 1)"
proof -
  have "of_int \<lfloor>log 2 x\<rfloor> + 1 \<le> (of_int (double_exponent x) + 1 :: real)"
    using assms by (simp add: double_exponent_def)
  then have "2 powr (of_int \<lfloor>log 2 x\<rfloor> + 1) \<le> (2::real) powr (of_int (double_exponent x) + 1)"
    by (intro powr_mono) simp_all
  with floor_log2_bounds(2) [OF assms] show ?thesis by linarith
qed

lemma double_exponent_lower:
  assumes "0 < x" "- 1022 < double_exponent x"
  shows "2 powr of_int (double_exponent x) \<le> x"
proof -
  have "double_exponent x = \<lfloor>log 2 x\<rfloor>"
    using assms by (simp add: double_exponent_def max_def split: if_splits)
  with floor_log2_bounds(1) [OF assms(1)] show ?thesis by simp
qed

lemma double_exponent_mono:
  assumes "0 < x" "x \<le> y"
  shows "double_exponent x \<le> double_exponent y"
proof -
  have "log 2 x \<le> log 2 y" using assms by simp
  then have "\<lfloor>log 2 x\<rfloor> \<le> \<lfloor>log 2 y\<rfloor>" by (rule floor_mono)
  then show ?thesis using assms by (simp add: double_exponent_def)
qed

lemma ulp_times: "of_int n * double_ulp x = of_int n * 2 powr (of_int (double_exponent x) - 52)"
  by (simp add: double_ulp_def)

lemma pow52: "2 powr of_int e = 2 ^ 52 * (2::real) powr (of_int e - 52)"
proof -
  have "(2::real) powr of_int e = 2 powr (52 + (of_int e - 52))" by simp
  also have "\<dots> = 2 powr 52 * 2 powr (of_int e - 52)" by (rule powr_add)
  finally show ?thesis by simp
qed

lemma pow53: "2 powr (of_int e + 1) = 2 ^ 53 * (2::real) powr (of_int e - 52)"
proof -
  have "(2::real) powr (of_int e + 1) = 2 powr (53 + (of_int e - 52))" by (simp add: algebra_simps)
  also have "\<dots> = 2 powr 53 * 2 powr (of_int e - 52)" by (rule powr_add)
  finally show ?thesis by simp
qed

lemma round_double_nonneg:
  assumes "0 \<le> x"
  shows "0 \<le> round_double x"
proof (cases "x = 0")
  case True
  then show ?thesis by (simp add: round_double_def)
next
  case False
  have "0 \<le> x / double_ulp x" using assms by simp
  then have "round_half_even 0 \<le> round_half_even (x / double_ulp x)"
    by (rule round_half_even_mono)
  moreover have "round_half_even 0 = 0" using round_half_even_int [of 0] by simp
  ultimately show ?thesis using False by (simp add: round_double_def)
qed

lemma round_double_upper:
  assumes "0 < x"
  shows "round_double x \<le> 2 powr (of_int (double_exponent x) + 1)"
proof -
  let ?u = "double_ulp x"
  have "x \<le> 2 ^ 53 * ?u"
    using double_exponent_upper [OF assms] pow53 [of "double_exponent x"]
    by (simp add: double_ulp_def)
  then have "x / ?u \<le> 2 ^ 53" by (simp add: pos_divide_le_eq)
  then have "x / ?u \<le> of_int (2 ^ 53)" by simp
  then have "round_half_even (x / ?u) \<le> round_half_even (of_int (2 ^ 53))"
    by (rule round_half_even_mono)
  then have "round_half_even (x / ?u) \<le> 2 ^ 53" by (simp only: round_half_even_int)
  then have "(of_int (round_half_even (x / ?u)) :: real) \<le> of_int (2 ^ 53)"
    by (simp only: of_int_le_iff)
  then have "of_int (round_half_even (x / ?u)) * ?u \<le> 2 ^ 53 * ?u"
    by (intro mult_right_mono) simp_all
  then show ?thesis
    using assms pow53 [of "double_exponent x"] by (simp add: round_double_def double_ulp_def)
qed

lemma round_double_lower:
  assumes "0 < x" "2 powr of_int (double_exponent x) \<le> x"
  shows "2 powr of_int (double_exponent x) \<le> round_double x"
proof -
  let ?u = "double_ulp x"
  have "2 ^ 52 * ?u \<le> x"
    using assms(2) pow52 [of "double_exponent x"] by (simp add: double_ulp_def)
  then have "2 ^ 52 \<le> x / ?u" by (simp add: pos_le_divide_eq)
  then have "of_int (2 ^ 52) \<le> x / ?u" by simp
  then have "round_half_even (of_int (2 ^ 52)) \<le> round_half_even (x / ?u)"
    by (rule round_half_even_mono)
  then have "2 ^ 52 \<le> round_half_even (x / ?u)" by (simp only: round_half_even_int)
  then have "(of_int (2 ^ 52) :: real) \<le> of_int (round_half_even (x / ?u))"
    by (simp only: of_int_le_iff)
  then have "2 ^ 52 * ?u \<le> of_int (round_half_even (x / ?u)) * ?u"
    by (intro mult_right_mono) simp_all
  then show ?thesis
    using assms(1) pow52 [of "double_exponent x"] by (simp add: round_double_def double_ulp_def)
qed

lemma round_double_mono:
  assumes "0 \<le> x" "x \<le> y"
  shows "round_double x \<le> round_double y"
proof (cases "x = 0")
  case True
  then show ?thesis using round_double_nonneg [of y] assms by (simp add: round_double_def)
next
  case False
  then have x: "0 < x" and y: "0 < y" using assms by simp_all
  have le: "double_exponent x \<le> double_exponent y" by (rule double_exponent_mono [OF x assms(2)])
  show ?thesis
  proof (cases "double_exponent x = double_exponent y")
    case True
    then have u: "double_ulp x = double_ulp y" by (simp add: double_ulp_def)
    have "x / double_ulp y \<le> y / double_ulp y" using assms(2) by (simp add: divide_right_mono)
    then have "round_half_even (x / double_ulp y) \<le> round_half_even (y / double_ulp y)"
      by (rule round_half_even_mono)
    then have "(of_int (round_half_even (x / double_ulp y)) :: real)
                 \<le> of_int (round_half_even (y / double_ulp y))"
      by (simp only: of_int_le_iff)
    then have "of_int (round_half_even (x / double_ulp y)) * double_ulp y
                 \<le> of_int (round_half_even (y / double_ulp y)) * double_ulp y"
      by (intro mult_right_mono) simp_all
    then show ?thesis using x y u by (simp add: round_double_def)
  next
    case False
    with le have lt: "double_exponent x < double_exponent y" by simp
    have "- 1022 \<le> double_exponent x" by (simp add: double_exponent_def)
    with lt have "- 1022 < double_exponent y" by simp
    then have "2 powr of_int (double_exponent y) \<le> round_double y"
      using round_double_lower [OF y] double_exponent_lower [OF y] by simp
    moreover have "(2::real) powr (of_int (double_exponent x) + 1) \<le> 2 powr of_int (double_exponent y)"
      using lt by (intro powr_mono) simp_all
    ultimately show ?thesis using round_double_upper [OF x] by linarith
  qed
qed

lemma round_double_exact:
  assumes "2 powr of_int k \<le> x" "x < 2 powr (of_int k + 1)" "- 1022 \<le> k"
      and "x = of_int m * 2 powr (of_int k - 52)"
  shows "round_double x = x"
proof -
  have pos: "0 < x" using assms(1) by (smt (verit) powr_gt_zero)
  then have "\<lfloor>log 2 x\<rfloor> = k" using floor_log_eq_powr_iff [of x 2 k] assms(1,2) by simp
  then have e: "double_exponent x = k" using pos assms(3) by (simp add: double_exponent_def)
  then have u: "double_ulp x = 2 powr (of_int k - 52)" by (simp add: double_ulp_def)
  have "x / double_ulp x = of_int m" unfolding u using assms(4) by simp
  then show ?thesis using pos assms(4) u by (simp add: round_double_def)
qed


lemma round_double_values:
  "round_double 0 = 0" "round_double 1 = 1" "round_double 50 = 50"
  "round_double 100 = 100" "round_double 150 = 150"
  "round_double (1 / 2 ^ 60) = 1 / 2 ^ 60"
proof -
  show "round_double 0 = 0" by (simp add: round_double_def)
  show "round_double 1 = 1"
    by (rule round_double_exact [of 0 _ "2 ^ 52"]) (simp_all add: powr_minus_divide)
  show "round_double 50 = 50"
    by (rule round_double_exact [of 5 _ "50 * 2 ^ 47"]) (simp_all add: powr_minus_divide)
  show "round_double 100 = 100"
    by (rule round_double_exact [of 6 _ "100 * 2 ^ 46"]) (simp_all add: powr_minus_divide)
  show "round_double 150 = 150"
    by (rule round_double_exact [of 7 _ "150 * 2 ^ 45"]) (simp_all add: powr_minus_divide)
  show "round_double (1 / 2 ^ 60) = 1 / 2 ^ 60"
    by (rule round_double_exact [of "- 60" _ "2 ^ 52"]) (simp_all add: powr_minus_divide)
qed

lemma round_double_below_one: "round_double (1 - 1 / 2 ^ 60) = 1"
proof -
  define x :: real where "x = 1 - 1 / 2 ^ 60"
  have pos: "0 < x" and lo: "1 / 2 \<le> x" and hi: "x < 1" by (simp_all add: x_def)
  have "\<lfloor>log 2 x\<rfloor> = - 1"
    using floor_log_eq_powr_iff [of x 2 "- 1"] pos lo hi by (simp add: powr_minus_divide)
  then have e: "double_exponent x = - 1" using pos by (simp add: double_exponent_def)
  have u: "double_ulp x = 1 / 2 ^ 53" unfolding double_ulp_def e by (simp add: powr_minus_divide)
  have q: "x / double_ulp x = 2 ^ 53 - 1 / 128" unfolding u by (simp add: x_def)
  have fl: "\<lfloor>2 ^ 53 - 1 / 128 :: real\<rfloor> = 2 ^ 53 - 1" by (rule floor_unique) simp_all
  have r: "round_half_even (2 ^ 53 - 1 / 128) = 2 ^ 53"
    unfolding round_half_even_def fl by (simp add: Let_def)
  have "round_double x = of_int (round_half_even (x / double_ulp x)) * double_ulp x"
    using pos by (simp add: round_double_def)
  also have "\<dots> = of_int (round_half_even (2 ^ 53 - 1 / 128)) * double_ulp x"
    by (simp only: q)
  also have "\<dots> = of_int (2 ^ 53) * (1 / 2 ^ 53)" by (simp only: r u)
  also have "\<dots> = 1" by simp
  finally show ?thesis unfolding x_def .
qed

lemma double_ulp_le:
  assumes "0 < x" "x < 2 powr (of_int k + 1)" "- 1022 \<le> k"
  shows "double_ulp x \<le> 2 powr (of_int k - 52)"
proof -
  have "2 powr of_int \<lfloor>log 2 x\<rfloor> < (2::real) powr (of_int k + 1)"
    using floor_log2_bounds(1) [OF assms(1)] assms(2) by linarith
  then have "of_int \<lfloor>log 2 x\<rfloor> < (of_int k + 1 :: real)" by simp
  then have "\<lfloor>log 2 x\<rfloor> \<le> k" by linarith
  then have "double_exponent x \<le> k" using assms(1,3) by (simp add: double_exponent_def)
  then show ?thesis unfolding double_ulp_def by (intro powr_mono) (simp_all add: powr_minus_divide)
qed

lemma round_double_error_le:
  assumes "0 \<le> x" "x < 2 powr (of_int k + 1)" "- 1022 \<le> k"
  shows "\<bar>round_double x - x\<bar> \<le> 2 powr (of_int k - 52) / 2"
proof (cases "x = 0")
  case True
  then show ?thesis by (simp add: round_double_def)
next
  case False
  then have "0 < x" using assms(1) by simp
  from double_ulp_le [OF this assms(2,3)] round_double_error [of x] show ?thesis by linarith
qed

lemma zoom_double_unfold:
  "zoom_double p = round_double (50 + round_double (100 * round_double (1 - p)))"
  by (simp add: zoom_double_def round_double_values)

lemma zoom_double_range:
  assumes "0 \<le> p" "p \<le> 1"
  shows "50 \<le> zoom_double p" "zoom_double p \<le> 150"
proof -
  let ?a = "round_double (1 - p)"
  have a: "0 \<le> ?a" "?a \<le> 1"
    using round_double_nonneg [of "1 - p"] round_double_mono [of "1 - p" 1] assms
    by (simp_all add: round_double_values)
  let ?b = "round_double (100 * ?a)"
  have b: "0 \<le> ?b" "?b \<le> 100"
    using round_double_nonneg [of "100 * ?a"] round_double_mono [of "100 * ?a" 100] a
    by (simp_all add: round_double_values)
  show "50 \<le> zoom_double p" "zoom_double p \<le> 150"
    using round_double_mono [of 50 "50 + ?b"] round_double_mono [of "50 + ?b" 150] b
    by (simp_all add: zoom_double_unfold round_double_values)
qed

lemma zoom_double_mono:
  assumes "p \<le> q" "q \<le> 1"
  shows "zoom_double q \<le> zoom_double p"
proof -
  have "round_double (1 - q) \<le> round_double (1 - p)"
    using assms by (intro round_double_mono) (simp_all add: powr_minus_divide)
  moreover have "0 \<le> round_double (1 - q)" using assms by (intro round_double_nonneg) simp
  ultimately have "round_double (100 * round_double (1 - q)) \<le> round_double (100 * round_double (1 - p))"
    by (intro round_double_mono) (simp_all add: powr_minus_divide)
  moreover have "0 \<le> round_double (100 * round_double (1 - q))"
    using \<open>0 \<le> round_double (1 - q)\<close> by (intro round_double_nonneg) simp
  ultimately show ?thesis
    unfolding zoom_double_unfold by (intro round_double_mono) (simp_all add: powr_minus_divide)
qed

lemma three_step_error:
  fixes a b c a0 e1 e2 e3 :: real
  assumes "\<bar>a - a0\<bar> \<le> e1" "\<bar>b - 100 * a\<bar> \<le> e2" "\<bar>c - (50 + b)\<bar> \<le> e3"
  shows "\<bar>c - (50 + 100 * a0)\<bar> \<le> e3 + e2 + 100 * e1"
  using assms by linarith

lemma zoom_double_error:
  assumes "0 \<le> p" "p \<le> 1"
  shows "\<bar>zoom_double p - (50 + (150 - 50) * (1 - p))\<bar> \<le> 1 / 2 ^ 44"
proof -
  define a where "a = round_double (1 - p)"
  define b where "b = round_double (100 * a)"
  define c where "c = round_double (50 + b)"
  have a: "0 \<le> a" "a \<le> 1"
    using round_double_nonneg [of "1 - p"] round_double_mono [of "1 - p" 1] assms
    by (simp_all add: round_double_values a_def)
  have b: "0 \<le> b" "b \<le> 100"
    using round_double_nonneg [of "100 * a"] round_double_mono [of "100 * a" 100] a
    by (simp_all add: round_double_values b_def)
  have ea: "\<bar>a - (1 - p)\<bar> \<le> 1 / 2 ^ 53"
    using round_double_error_le [of "1 - p" 0] assms by (simp add: powr_minus_divide a_def)
  have eb: "\<bar>b - 100 * a\<bar> \<le> 1 / 2 ^ 47"
    using round_double_error_le [of "100 * a" 6] a by (simp add: powr_minus_divide b_def)
  have ec: "\<bar>c - (50 + b)\<bar> \<le> 1 / 2 ^ 46"
    using round_double_error_le [of "50 + b" 7] b by (simp add: powr_minus_divide c_def)
  have n: "(1 / 2 ^ 46 :: real) + 1 / 2 ^ 47 + 100 * (1 / 2 ^ 53) \<le> 1 / 2 ^ 44" by simp
  have "\<bar>c - (50 + 100 * (1 - p))\<bar> \<le> 1 / 2 ^ 46 + 1 / 2 ^ 47 + 100 * (1 / 2 ^ 53)"
    by (rule three_step_error [OF ea eb ec])
  with n have "\<bar>c - (50 + 100 * (1 - p))\<bar> \<le> 1 / 2 ^ 44" by linarith
  moreover have "zoom_double p = c" by (simp add: zoom_double_unfold a_def b_def c_def)
  ultimately show ?thesis by simp
qed


text \<open>
  C7, as stated: a smaller progress gives a strictly larger \<open>position.z\<close>. The numbers
  0 and \<open>2^-60\<close> are both doubles in [0, 1], and the code computes \<open>z = 150\<close> for both:
  \<open>1 - 2^-60\<close> rounds to 1.
\<close>

theorem camera_zoom_strict_counterexample:
  "(0::real) < 1 / 2 ^ 60 \<and> (1 / 2 ^ 60 :: real) \<le> 1
   \<and> round_double 0 = 0 \<and> round_double (1 / 2 ^ 60) = 1 / 2 ^ 60
   \<and> zoom_double 0 = 150 \<and> zoom_double (1 / 2 ^ 60) = 150
   \<and> \<not> zoom_double (1 / 2 ^ 60) < zoom_double 0"
proof -
  have c1: "(0::real) < 1 / 2 ^ 60" and c2: "(1 / 2 ^ 60 :: real) \<le> 1" by simp_all
  have a: "zoom_double 0 = 150" by (simp add: zoom_double_unfold round_double_values)
  have "zoom_double (1 / 2 ^ 60)
          = round_double (50 + round_double (100 * round_double (1 - 1 / 2 ^ 60)))"
    by (rule zoom_double_unfold)
  also have "\<dots> = round_double (50 + round_double (100 * 1))"
    by (simp only: round_double_below_one)
  also have "\<dots> = 150" by (simp add: round_double_values)
  finally have b: "zoom_double (1 / 2 ^ 60) = 150" .
  have c5: "\<not> zoom_double (1 / 2 ^ 60) < zoom_double 0" unfolding a b by simp
  from c1 c2 round_double_values(1,6) a b c5 show ?thesis by blast
qed

text \<open>
  C7, amended: the exact value of \<open>position.z\<close> is \<open>50 + (150 - 50) * (1 - progress)\<close>,
  which for progress in [0, 1] lies in [50, 150] and does not increase with progress.
  The value the code computes in double precision differs from it by at most
  \<open>2^-44\<close>, also lies in [50, 150], and is monotonically non-increasing in progress:
  \<open>p \<le> q\<close> implies \<open>z(q) \<le> z(p)\<close>.
\<close>

theorem camera_zoom_range_antitone:
  "cam_pos_z (camera_on_scroll p c) = 50 + (150 - 50) * (1 - p)
   \<and> (0 \<le> p \<and> p \<le> 1 \<longrightarrow>
        50 \<le> cam_pos_z (camera_on_scroll p c) \<and> cam_pos_z (camera_on_scroll p c) \<le> 150
        \<and> 50 \<le> zoom_double p \<and> zoom_double p \<le> 150
        \<and> \<bar>zoom_double p - cam_pos_z (camera_on_scroll p c)\<bar> \<le> 1 / 2 ^ 44)
   \<and> (p \<le> q \<longrightarrow> cam_pos_z (camera_on_scroll q c') \<le> cam_pos_z (camera_on_scroll p c))
   \<and> (0 \<le> p \<and> p \<le> q \<and> q \<le> 1 \<longrightarrow> zoom_double q \<le> zoom_double p)"
proof -
  have z: "cam_pos_z (camera_on_scroll p c) = 50 + (150 - 50) * (1 - p)"
    by (simp add: camera_on_scroll_def)
  have r: "50 \<le> zoom_double p \<and> zoom_double p \<le> 150
           \<and> \<bar>zoom_double p - cam_pos_z (camera_on_scroll p c)\<bar> \<le> 1 / 2 ^ 44"
    if "0 \<le> p" "p \<le> 1"
    unfolding z using zoom_double_range [OF that] zoom_double_error [OF that] by simp
  have m: "zoom_double q \<le> zoom_double p" if "p \<le> q" "q \<le> 1"
    by (rule zoom_double_mono [OF that])
  show ?thesis using r m by (simp add: camera_on_scroll_def)
qed

theorem camera_zoom_range_antitone_witness:
  "(0::real) \<le> 0 \<and> (0::real) \<le> 1 \<and> (1::real) \<le> 1
   \<and> zoom_double 0 = 150 \<and> zoom_double 1 = 50 \<and> zoom_double 1 \<le> zoom_double 0
   \<and> cam_pos_z (camera_on_scroll 0
        \<lparr> cam_pos_x = 0, cam_pos_y = 0, cam_pos_z = 100, cam_rot_x = 0, cam_rot_y = 0 \<rparr>) = 150"
  using camera_zoom_range_antitone [of 0
      "\<lparr> cam_pos_x = 0, cam_pos_y = 0, cam_pos_z = 100, cam_rot_x = 0, cam_rot_y = 0 \<rparr>" 1
      "\<lparr> cam_pos_x = 0, cam_pos_y = 0, cam_pos_z = 100, cam_rot_x = 0, cam_rot_y = 0 \<rparr>"]
  by (simp add: zoom_double_unfold round_double_values)

section \<open>Properties of the scroll progress tracker\<close>

text \<open>
  C8: with \<open>scrollableHeight = d - h\<close>, the handler's progress is
  \<open>scrollOffset / scrollableHeight\<close> when \<open>scrollableHeight > 0\<close> and 0 otherwise; the
  quotient is never formed with a zero divisor (the result is never \<open>None\<close>); and when
  \<open>0 \<le> scrollOffset \<le> scrollableHeight\<close> the progress lies in [0, 1].
\<close>

theorem scroll_progress_safe:
  "scroll_progress d h y \<noteq> None
   \<and> (d - h > 0 \<longrightarrow> scroll_progress d h y = js_div y (d - h) \<and> js_div y (d - h) = Some (y / (d - h)))
   \<and> (d - h \<le> 0 \<longrightarrow> scroll_progress d h y = Some 0)
   \<and> (0 \<le> y \<and> y \<le> d - h \<longrightarrow>
        (\<exists>p. scroll_progress d h y = Some p \<and> 0 \<le> p \<and> p \<le> 1))"
  by (auto simp: scroll_progress_def js_div_def Let_def divide_le_eq_1)

theorem scroll_progress_safe_witness:
  "(2000::real) - 800 > 0 \<and> (0::real) \<le> 300 \<and> (300::real) \<le> 2000 - 800
   \<and> scroll_progress 2000 800 300 = Some (1/4)"
  using scroll_progress_safe [of 2000 800 300] by (simp add: js_div_def)

section \<open>Properties of the particle field\<close>

lemma particle_body_length [simp]:
  "length (fst (particle_body i p v)) = length p"
  "length (snd (particle_body i p v)) = length v"
  by (simp_all add: particle_body_def Let_def)

lemma particle_body_positions:
  assumes "i + 2 < length p"
  shows "fst (particle_body i p v) ! k =
           (if k = i \<or> k = i + 1 \<or> k = i + 2 then p ! k + v ! k else p ! k)"
  using assms by (auto simp: particle_body_def Let_def nth_list_update)

lemma particle_body_velocity:
  assumes "i + 2 < length p" "length v = length p"
  shows "snd (particle_body i p v) ! k =
           (if k = i \<or> k = i + 1 \<or> k = i + 2
            then (if \<bar>p ! k + v ! k\<bar> > 100 then - (v ! k) else v ! k)
                 - (if k = i + 1 then 0.0001 else 0)
            else v ! k)"
  using assms by (auto simp: particle_body_def Let_def nth_list_update)

lemma triple_in_range:
  assumes "3 dvd (i::nat)" "3 dvd n" "i < n"
  shows "i + 2 < n"
proof -
  from assms obtain a b where "i = 3 * a" "n = 3 * b" by (auto simp: dvd_def)
  with assms(3) show ?thesis by arith
qed

lemma particle_loop_length:
  "length (fst (particle_loop i p v)) = length p \<and> length (snd (particle_loop i p v)) = length v"
proof (induction i p v rule: particle_loop.induct)
  case (1 i p v)
  show ?case
  proof (cases "i < length p")
    case True
    with 1 show ?thesis by (subst (1 2) particle_loop.simps) simp
  next
    case False
    then show ?thesis by (subst (1 2) particle_loop.simps) simp
  qed
qed

lemma particle_loop_nth:
  assumes "length v = length p" "3 dvd length p" "3 dvd i"
  shows "fst (particle_loop i p v) ! k = (if i \<le> k \<and> k < length p then p ! k + v ! k else p ! k)
       \<and> snd (particle_loop i p v) ! k =
           (if i \<le> k \<and> k < length p
            then (if \<bar>p ! k + v ! k\<bar> > 100 then - (v ! k) else v ! k)
                 - (if k mod 3 = 1 then 0.0001 else 0)
            else v ! k)"
  using assms
proof (induction i p v rule: particle_loop.induct)
  case (1 i p v)
  show ?case
  proof (cases "i < length p")
    case False
    then show ?thesis by (subst (1 2) particle_loop.simps) simp
  next
    case True
    have rng: "i + 2 < length p" using triple_in_range [OF "1.prems"(3) "1.prems"(2) True] .
    let ?p = "fst (particle_body i p v)" and ?v = "snd (particle_body i p v)"
    have IH: "fst (particle_loop (i + 3) ?p ?v) ! k =
                (if i + 3 \<le> k \<and> k < length ?p then ?p ! k + ?v ! k else ?p ! k)
            \<and> snd (particle_loop (i + 3) ?p ?v) ! k =
                (if i + 3 \<le> k \<and> k < length ?p
                 then (if \<bar>?p ! k + ?v ! k\<bar> > 100 then - (?v ! k) else ?v ! k)
                      - (if k mod 3 = 1 then 0.0001 else 0)
                 else ?v ! k)"
      using "1.IH" [OF True] "1.prems" by simp
    have unf: "particle_loop i p v = particle_loop (i + 3) ?p ?v"
      using True by (subst particle_loop.simps) simp
    have m1: "(i + 1) mod 3 = 1" "i mod 3 = 0" "(i + 2) mod 3 = 2"
      using "1.prems"(3) by presburger+
    have pk: "?p ! k = (if k = i \<or> k = i + 1 \<or> k = i + 2 then p ! k + v ! k else p ! k)"
      by (rule particle_body_positions [OF rng])
    have vk: "?v ! k = (if k = i \<or> k = i + 1 \<or> k = i + 2
            then (if \<bar>p ! k + v ! k\<bar> > 100 then - (v ! k) else v ! k)
                 - (if k = i + 1 then 0.0001 else 0)
            else v ! k)"
      by (rule particle_body_velocity [OF rng "1.prems"(1)])
    consider "k < i" | "k = i" | "k = i + 1" | "k = i + 2" | "i + 3 \<le> k" by arith
    then show ?thesis
    proof cases
      case 1 then show ?thesis using IH pk vk unf by simp
    next
      case 2 then show ?thesis using IH pk vk unf rng m1 by simp
    next
      case 3 then show ?thesis using IH pk vk unf rng m1 by simp
    next
      case 4 then show ?thesis using IH pk vk unf rng m1 by simp
    next
      case 5 then show ?thesis using IH pk vk unf by simp
    qed
  qed
qed


lemma updateParticles_arrays:
  assumes "particleSystem w \<noteq> None"
  shows "positions_of (updateParticles w) = fst (particle_loop 0 (positions_of w) (particleVelocities w))"
    and "particleVelocities (updateParticles w) = snd (particle_loop 0 (positions_of w) (particleVelocities w))"
    and "particleSystem (updateParticles w) \<noteq> None"
  using assms by (auto simp: updateParticles_def positions_of_def Let_def)

lemma updateParticles_wf:
  "particles_wf w \<Longrightarrow> particles_wf (updateParticles w)"
  by (simp add: particles_wf_def updateParticles_arrays particle_loop_length)

lemma updateParticles_nth:
  assumes "particles_wf w" "k < length (positions_of w)"
  shows "positions_of (updateParticles w) ! k = positions_of w ! k + particleVelocities w ! k"
    and "particleVelocities (updateParticles w) ! k =
           (if \<bar>positions_of w ! k + particleVelocities w ! k\<bar> > 100
            then - (particleVelocities w ! k) else particleVelocities w ! k)
           - (if k mod 3 = 1 then 0.0001 else 0)"
    and "length (positions_of (updateParticles w)) = length (positions_of w)"
  using assms particle_loop_nth [of "particleVelocities w" "positions_of w" 0 k]
  by (simp_all add: particles_wf_def updateParticles_arrays particle_loop_length)

text \<open>
  C6: one call of \<open>updateParticles\<close>, for every buffer entry \<open>k\<close> (particle \<open>k div 3\<close>,
  axis \<open>k mod 3\<close>): the position becomes position + velocity and is not clamped; the
  velocity is negated exactly when the new position is beyond 100 in magnitude; and
  after that the vertical component (\<open>k mod 3 = 1\<close>) is decremented by 0.0001, with no
  lower bound. The shape of the buffers is preserved.
\<close>

theorem updateParticles_frame:
  assumes "particles_wf w" and "k < length (positions_of w)"
  shows "positions_of (updateParticles w) ! k = positions_of w ! k + particleVelocities w ! k
       \<and> particleVelocities (updateParticles w) ! k =
           (if \<bar>positions_of (updateParticles w) ! k\<bar> > 100
            then - (particleVelocities w ! k) else particleVelocities w ! k)
           - (if k mod 3 = 1 then 0.0001 else 0)
       \<and> length (positions_of (updateParticles w)) = length (positions_of w)
       \<and> particles_wf (updateParticles w)"
  using updateParticles_nth [OF assms] updateParticles_wf [OF assms(1)] by simp

lemma createParticles_wf: "particles_wf (createParticles e w)"
  by (simp add: particles_wf_def createParticles_def positions_of_def Let_def)

lemma createParticles_nth:
  assumes "k < 3 * particleCount (config w)"
  shows "positions_of (createParticles e w) ! k = (env_random e (5 * (k div 3) + k mod 3) - 0.5) * 200"
    and "particleVelocities (createParticles e w) ! k = (env_random e (5 * particleCount (config w) + k) - 0.5) * 0.05"
    and "length (positions_of (createParticles e w)) = 3 * particleCount (config w)"
  using assms by (simp_all add: createParticles_def positions_of_def Let_def)

lemma new_page_count: "particleCount (config (new_page sinking_env)) = 1000"
  by (simp add: new_page_def sinking_env_def make_config_def)

lemma sinking_start_facts:
  "particles_wf sinking_start"
  "length (positions_of sinking_start) = 3000"
  "positions_of sinking_start ! Suc 0 = - 100 + 1 / 20000"
  "particleVelocities sinking_start ! Suc 0 = - (3 / 25000)"
proof -
  show "particles_wf sinking_start"
    unfolding sinking_start_def by (rule createParticles_wf)
  have k: "Suc 0 < 3 * particleCount (config (new_page sinking_env))"
    by (simp add: new_page_count)
  show "length (positions_of sinking_start) = 3000"
    unfolding sinking_start_def using createParticles_nth(3) [OF k] by (simp add: new_page_count)
  show "positions_of sinking_start ! Suc 0 = - 100 + 1 / 20000"
    unfolding sinking_start_def createParticles_nth(1) [OF k] by (simp add: sinking_env_def)
  show "particleVelocities sinking_start ! Suc 0 = - (3 / 25000)"
    unfolding sinking_start_def createParticles_nth(2) [OF k] new_page_count
    by (simp add: sinking_env_def)
qed

theorem updateParticles_frame_witness:
  "particles_wf sinking_start
   \<and> Suc 0 < length (positions_of sinking_start)
   \<and> positions_of (updateParticles sinking_start) ! Suc 0 = - 100 - 7 / 100000
   \<and> particleVelocities (updateParticles sinking_start) ! Suc 0 = 1 / 50000"
proof -
  have k: "Suc 0 < length (positions_of sinking_start)" by (simp add: sinking_start_facts(2))
  show ?thesis
    using updateParticles_frame [OF sinking_start_facts(1) k] sinking_start_facts(1) k
    by (simp add: sinking_start_facts(3,4))
qed

lemma horizontal_bounce_once:
  assumes wf: "particles_wf w" and k: "k < length (positions_of w)" and ax: "k mod 3 \<noteq> 1"
      and inside: "\<bar>positions_of w ! k\<bar> \<le> 100"
      and crosses: "\<bar>positions_of w ! k + particleVelocities w ! k\<bar> > 100"
  shows "particleVelocities (updateParticles w) ! k = - (particleVelocities w ! k)"
    and "positions_of (updateParticles (updateParticles w)) ! k = positions_of w ! k"
    and "particleVelocities (updateParticles (updateParticles w)) ! k = - (particleVelocities w ! k)"
proof -
  let ?w1 = "updateParticles w"
  have wf1: "particles_wf ?w1" by (rule updateParticles_wf [OF wf])
  have k1: "k < length (positions_of ?w1)" using updateParticles_nth(3) [OF wf k] k by simp
  have p1: "positions_of ?w1 ! k = positions_of w ! k + particleVelocities w ! k"
    by (rule updateParticles_nth(1) [OF wf k])
  show v1: "particleVelocities ?w1 ! k = - (particleVelocities w ! k)"
    using updateParticles_nth(2) [OF wf k] ax crosses by simp
  show p2: "positions_of (updateParticles ?w1) ! k = positions_of w ! k"
    using updateParticles_nth(1) [OF wf1 k1] p1 v1 by simp
  show "particleVelocities (updateParticles ?w1) ! k = - (particleVelocities w ! k)"
    using updateParticles_nth(2) [OF wf1 k1] p1 v1 ax inside by simp
qed

lemma sinking_step:
  assumes "particles_wf w" "length (positions_of w) = 3000"
      and "positions_of w ! Suc 0 = y" "particleVelocities w ! Suc 0 = v" "y + v < - 100"
  shows "particles_wf (updateParticles w)" "length (positions_of (updateParticles w)) = 3000"
    and "positions_of (updateParticles w) ! Suc 0 = y + v"
    and "particleVelocities (updateParticles w) ! Suc 0 = - v - 1 / 10000"
proof -
  have k: "Suc 0 < length (positions_of w)" using assms(2) by simp
  show "particles_wf (updateParticles w)" by (rule updateParticles_wf [OF assms(1)])
  show "length (positions_of (updateParticles w)) = 3000"
    using updateParticles_nth(3) [OF assms(1) k] assms(2) by simp
  show "positions_of (updateParticles w) ! Suc 0 = y + v"
    using updateParticles_nth(1) [OF assms(1) k] assms(3,4) by simp
  show "particleVelocities (updateParticles w) ! Suc 0 = - v - 1 / 10000"
    using updateParticles_nth(2) [OF assms(1) k] assms(3,4,5) by simp
qed

lemma sinking_invariant:
  "particles_wf ((updateParticles ^^ Suc n) sinking_start)
   \<and> length (positions_of ((updateParticles ^^ Suc n) sinking_start)) = 3000
   \<and> (particleVelocities ((updateParticles ^^ Suc n) sinking_start) ! Suc 0 = 1 / 50000
        \<and> positions_of ((updateParticles ^^ Suc n) sinking_start) ! Suc 0 < - 100 - 1 / 50000
      \<or> particleVelocities ((updateParticles ^^ Suc n) sinking_start) ! Suc 0 = - (3 / 25000)
        \<and> positions_of ((updateParticles ^^ Suc n) sinking_start) ! Suc 0 < - 100)"
proof (induction n)
  case 0
  have "- 100 + 1 / 20000 + - (3 / 25000) < (- 100 :: real)" by simp
  from sinking_step [OF sinking_start_facts(1,2,3,4) this]
  show ?case by simp
next
  case (Suc n)
  let ?w = "(updateParticles ^^ Suc n) sinking_start"
  from Suc.IH have wf: "particles_wf ?w" and len: "length (positions_of ?w) = 3000" by simp_all
  from Suc.IH consider
      (A) "particleVelocities ?w ! Suc 0 = 1 / 50000" "positions_of ?w ! Suc 0 < - 100 - 1 / 50000"
    | (B) "particleVelocities ?w ! Suc 0 = - (3 / 25000)" "positions_of ?w ! Suc 0 < - 100"
    by blast
  then show ?case
  proof cases
    case A
    then have lt: "positions_of ?w ! Suc 0 + 1 / 50000 < - 100" by simp
    from sinking_step [OF wf len refl A(1) lt] lt show ?thesis by simp
  next
    case B
    then have lt: "positions_of ?w ! Suc 0 + - (3 / 25000) < - 100" by simp
    from sinking_step [OF wf len refl B(1) lt] B(2) show ?thesis by simp
  qed
qed


text \<open>
  C3 (each crossing flips the sign once; a particle that stays beyond the boundary is
  not negated again): evaluated on the page \<open>sinking_env\<close>. The first particle starts
  inside the box; frame 1 takes its \<open>y\<close> to -100.00007 and leaves \<open>vy = 0.00002\<close>; in
  frame 2 it stays beyond the boundary and \<open>vy\<close> is negated again; and it is beyond
  the boundary after every later frame.
\<close>

theorem vertical_bounce_repeats:
  "\<bar>positions_of sinking_start ! Suc 0\<bar> \<le> 100
   \<and> positions_of (updateParticles sinking_start) ! Suc 0 = - 100 - 7 / 100000
   \<and> particleVelocities (updateParticles sinking_start) ! Suc 0 = 1 / 50000
   \<and> positions_of (updateParticles (updateParticles sinking_start)) ! Suc 0 = - 100 - 1 / 20000
   \<and> particleVelocities (updateParticles (updateParticles sinking_start)) ! Suc 0
       = - (particleVelocities (updateParticles sinking_start) ! Suc 0) - 1 / 10000
   \<and> particleVelocities (updateParticles (updateParticles sinking_start)) ! Suc 0
       \<noteq> particleVelocities (updateParticles sinking_start) ! Suc 0 - 1 / 10000
   \<and> positions_of ((updateParticles ^^ Suc n) sinking_start) ! Suc 0 < - 100"
proof -
  have a: "- 100 + 1 / 20000 + - (3 / 25000) < (- 100 :: real)" by simp
  note s1 = sinking_step [OF sinking_start_facts(1,2,3,4) a]
  have b: "- 100 + 1 / 20000 + - (3 / 25000) + (- (- (3 / 25000)) - 1 / 10000) < (- 100 :: real)"
    by simp
  note s2 = sinking_step [OF s1 b]
  have "positions_of ((updateParticles ^^ Suc n) sinking_start) ! Suc 0 < - 100"
    using sinking_invariant [of n] by auto
  then show ?thesis
    using s1(3,4) s2(3,4) by (simp add: sinking_start_facts(3))
qed


section \<open>Properties of construction and the fallback\<close>

text \<open>
  C5: when the capability check fails, \<open>init\<close> does nothing but mount one fallback
  panel: into the container when the page has one, into the body otherwise. No scene,
  camera, renderer, particle system or decorative object is created, nothing is
  subscribed and no frame is requested.
\<close>

theorem init_without_webgl:
  assumes "\<not> isWebGLSupported e"
  shows "init e w = mount FallbackPanel w
       \<and> camera (init e w) = camera w \<and> particleSystem (init e w) = particleSystem w
       \<and> torus (init e w) = torus w \<and> octahedron (init e w) = octahedron w
       \<and> cube (init e w) = cube w
       \<and> camera (constructor e) = None \<and> particleSystem (constructor e) = None
       \<and> torus (constructor e) = None \<and> octahedron (constructor e) = None
       \<and> cube (constructor e) = None \<and> scene (constructor e) = None
       \<and> renderer (constructor e) = None
       \<and> \<not> initialized (constructor e) \<and> pending (constructor e) = []
       \<and> listeners (constructor e) = [BeforeUnload]
       \<and> container (constructor e) = (if env_has_container e then Some [FallbackPanel] else None)
       \<and> body (constructor e) = (if env_has_container e then [] else [FallbackPanel])"
  using assms
  by (simp add: init_def constructor_def handleWebGLFallback_def mount_def new_page_def
           split: option.split)

theorem init_without_webgl_witness:
  "\<not> isWebGLSupported no_webgl_env
   \<and> camera (constructor no_webgl_env) = None
   \<and> particleSystem (constructor no_webgl_env) = None
   \<and> container (constructor no_webgl_env) = None
   \<and> body (constructor no_webgl_env) = [FallbackPanel]"
proof -
  have h: "\<not> isWebGLSupported no_webgl_env"
    by (simp add: isWebGLSupported_def no_webgl_env_def)
  show ?thesis using init_without_webgl [OF h, of "new_page no_webgl_env"] h
    by (simp add: no_webgl_env_def)
qed


section \<open>Properties of the render loop\<close>

lemma positions_of_simps [simp]:
  "positions_of (w\<lparr> pending := a \<rparr>) = positions_of w"
  "positions_of (w\<lparr> next_id := b \<rparr>) = positions_of w"
  "positions_of (w\<lparr> animationId := c \<rparr>) = positions_of w"
  "positions_of (w\<lparr> torus := d \<rparr>) = positions_of w"
  "positions_of (w\<lparr> initialized := f \<rparr>) = positions_of w"
  "positions_of (w\<lparr> listeners := g \<rparr>) = positions_of w"
  "positions_of (w\<lparr> scrollProgress := h \<rparr>) = positions_of w"
  "positions_of (w\<lparr> renderer := i \<rparr>) = positions_of w"
  "positions_of (w\<lparr> scene := j \<rparr>) = positions_of w"
  "positions_of (w\<lparr> container := k \<rparr>) = positions_of w"
  "positions_of (w\<lparr> body := l \<rparr>) = positions_of w"
  "positions_of (w\<lparr> camera := m \<rparr>) = positions_of w"
  "positions_of (w\<lparr> octahedron := n \<rparr>) = positions_of w"
  "positions_of (w\<lparr> cube := q \<rparr>) = positions_of w"
  by (simp_all add: positions_of_def)

lemma particles_wf_simps [simp]:
  "particles_wf (w\<lparr> pending := a \<rparr>) = particles_wf w"
  "particles_wf (w\<lparr> next_id := b \<rparr>) = particles_wf w"
  "particles_wf (w\<lparr> animationId := c \<rparr>) = particles_wf w"
  "particles_wf (w\<lparr> torus := d \<rparr>) = particles_wf w"
  "particles_wf (w\<lparr> initialized := f \<rparr>) = particles_wf w"
  "particles_wf (w\<lparr> listeners := g \<rparr>) = particles_wf w"
  "particles_wf (w\<lparr> scrollProgress := h \<rparr>) = particles_wf w"
  "particles_wf (w\<lparr> renderer := i \<rparr>) = particles_wf w"
  "particles_wf (w\<lparr> scene := j \<rparr>) = particles_wf w"
  "particles_wf (w\<lparr> container := k \<rparr>) = particles_wf w"
  "particles_wf (w\<lparr> body := l \<rparr>) = particles_wf w"
  "particles_wf (w\<lparr> camera := m \<rparr>) = particles_wf w"
  "particles_wf (w\<lparr> octahedron := n \<rparr>) = particles_wf w"
  "particles_wf (w\<lparr> cube := q \<rparr>) = particles_wf w"
  by (simp_all add: particles_wf_def)

lemma pause_fields [simp]:
  "positions_of (pause w) = positions_of w"
  "particleVelocities (pause w) = particleVelocities w"
  "particleSystem (pause w) = particleSystem w"
  "torus (pause w) = torus w"
  "octahedron (pause w) = octahedron w"
  "cube (pause w) = cube w"
  "camera (pause w) = camera w"
  "renderer (pause w) = renderer w"
  "scene (pause w) = scene w"
  "initialized (pause w) = initialized w"
  "listeners (pause w) = listeners w"
  "animationId (pause w) = animationId w"
  "next_id (pause w) = next_id w"
  "scrollProgress (pause w) = scrollProgress w"
  "config (pause w) = config w"
  "container (pause w) = container w"
  "body (pause w) = body w"
  "particles_wf (pause w) = particles_wf w"
  by (simp_all add: pause_def cancelAnimationFrame_def split: option.split)

lemma pause_pending:
  "pending (pause w) =
     (case animationId w of None \<Rightarrow> pending w
      | Some h \<Rightarrow> if h \<noteq> 0 then removeAll h (pending w) else pending w)"
  by (simp add: pause_def cancelAnimationFrame_def split: option.split)

text \<open>The state one call of animate leaves behind.\<close>

lemma animate_state:
  "snd (animate w) =
     rotate_particleSystem (rotate_torus (updateParticles
       (w\<lparr> pending := pending w @ [next_id w], next_id := next_id w + 1,
            animationId := Some (next_id w) \<rparr>)))"
  by (simp add: animate_def requestAnimationFrame_def Let_def ok_def throw_def split: option.split)

lemma rotate_fields [simp]:
  "positions_of (rotate_particleSystem w) = positions_of w"
  "particleVelocities (rotate_particleSystem w) = particleVelocities w"
  "particles_wf (rotate_particleSystem w) = particles_wf w"
  "torus (rotate_particleSystem w) = torus w"
  "octahedron (rotate_particleSystem w) = octahedron w"
  "cube (rotate_particleSystem w) = cube w"
  "camera (rotate_particleSystem w) = camera w"
  "renderer (rotate_particleSystem w) = renderer w"
  "pending (rotate_particleSystem w) = pending w"
  "next_id (rotate_particleSystem w) = next_id w"
  "animationId (rotate_particleSystem w) = animationId w"
  "initialized (rotate_particleSystem w) = initialized w"
  "listeners (rotate_particleSystem w) = listeners w"
  "positions_of (rotate_torus w) = positions_of w"
  "particleVelocities (rotate_torus w) = particleVelocities w"
  "particles_wf (rotate_torus w) = particles_wf w"
  "particleSystem (rotate_torus w) = particleSystem w"
  "octahedron (rotate_torus w) = octahedron w"
  "cube (rotate_torus w) = cube w"
  "camera (rotate_torus w) = camera w"
  "renderer (rotate_torus w) = renderer w"
  "pending (rotate_torus w) = pending w"
  "next_id (rotate_torus w) = next_id w"
  "animationId (rotate_torus w) = animationId w"
  "initialized (rotate_torus w) = initialized w"
  "listeners (rotate_torus w) = listeners w"
  by (simp_all add: rotate_particleSystem_def rotate_torus_def positions_of_def particles_wf_def
        split: option.split)

lemma rotate_torus_torus:
  "torus (rotate_torus w) =
     map_option (\<lambda>t. t\<lparr> mesh_rot_x := mesh_rot_x t + 0.001, mesh_rot_y := mesh_rot_y t + 0.002 \<rparr>)
       (torus w)"
  by (simp add: rotate_torus_def split: option.split)

lemma updateParticles_fields [simp]:
  "torus (updateParticles w) = torus w"
  "octahedron (updateParticles w) = octahedron w"
  "cube (updateParticles w) = cube w"
  "camera (updateParticles w) = camera w"
  "renderer (updateParticles w) = renderer w"
  "pending (updateParticles w) = pending w"
  "next_id (updateParticles w) = next_id w"
  "animationId (updateParticles w) = animationId w"
  "initialized (updateParticles w) = initialized w"
  "listeners (updateParticles w) = listeners w"
  by (simp_all add: updateParticles_def Let_def split: option.split)

lemma updateParticles_frame_indep:
  "positions_of (updateParticles (w\<lparr> pending := a, next_id := b, animationId := c \<rparr>))
     = positions_of (updateParticles w)"
  "particleVelocities (updateParticles (w\<lparr> pending := a, next_id := b, animationId := c \<rparr>))
     = particleVelocities (updateParticles w)"
  by (simp_all add: updateParticles_def positions_of_def Let_def split: option.split)

lemma animate_fields:
  "positions_of (snd (animate w)) = positions_of (updateParticles w)"
  "particleVelocities (snd (animate w)) = particleVelocities (updateParticles w)"
  "torus (snd (animate w)) =
     map_option (\<lambda>t. t\<lparr> mesh_rot_x := mesh_rot_x t + 0.001, mesh_rot_y := mesh_rot_y t + 0.002 \<rparr>)
       (torus w)"
  "octahedron (snd (animate w)) = octahedron w"
  "cube (snd (animate w)) = cube w"
  "camera (snd (animate w)) = camera w"
  "renderer (snd (animate w)) = renderer w"
  "pending (snd (animate w)) = pending w @ [next_id w]"
  "next_id (snd (animate w)) = next_id w + 1"
  "animationId (snd (animate w)) = Some (next_id w)"
  "initialized (snd (animate w)) = initialized w"
  "listeners (snd (animate w)) = listeners w"
  by (simp_all add: animate_state rotate_torus_torus updateParticles_frame_indep)

lemma animate_no_error:
  "renderer w \<noteq> None \<Longrightarrow> fst (animate w) = None"
  by (auto simp: animate_def requestAnimationFrame_def Let_def ok_def throw_def split: option.split)


lemma constructor_supported:
  assumes "isWebGLSupported e" "\<And>st. \<not> env_throws e st"
  shows "constructor e = snd (animate (setup_done e))" "fst (animate (setup_done e)) = None"
proof -
  have steps: "run_steps e [SetupScene, SetupCamera, SetupRenderer, SetupLighting,
                           CreateParticles, CreateGeometries, SetupEventListeners,
                           SetupScrollListener] (new_page e)
        = ok (setupScrollListener (setupEventListeners (createGeometries (createParticles e
        (setupRenderer e (setupCamera e (setupScene (new_page e))))))))"
    using assms(2) by simp
  have r: "renderer (setup_done e) \<noteq> None"
    by (simp add: setup_done_def setupScrollListener_def setupEventListeners_def
          createGeometries_def createParticles_def setupRenderer_def mount_def Let_def
          split: option.split)
  show e0: "fst (animate (setup_done e)) = None" by (rule animate_no_error [OF r])
  have "init_try e (new_page e) = animate (setup_done e)"
    unfolding init_try_def steps by (simp add: then_do_def ok_def setup_done_def)
  then show "constructor e = snd (animate (setup_done e))"
    using assms(1) e0 by (cases "animate (setup_done e)") (auto simp: constructor_def init_def)
qed

lemma setup_done_fields:
  "initialized (setup_done e)"
  "renderer (setup_done e) = Some \<lparr> rd_width = env_innerWidth e, rd_height = env_innerHeight e, rd_state = Live \<rparr>"
  "scene (setup_done e) = Some Live"
  "camera (setup_done e) = Some \<lparr> cam_pos_x = 0, cam_pos_y = 0, cam_pos_z = 100, cam_rot_x = 0, cam_rot_y = 0 \<rparr>"
  "torus (setup_done e) = Some \<lparr> mesh_pos_x = 0, mesh_pos_y = 0, mesh_pos_z = - 50,
                         mesh_rot_x = 0, mesh_rot_y = 0, mesh_rot_z = 0 \<rparr>"
  "octahedron (setup_done e) = Some \<lparr> mesh_pos_x = - 60, mesh_pos_y = 40, mesh_pos_z = - 100,
                              mesh_rot_x = 0, mesh_rot_y = 0, mesh_rot_z = 0 \<rparr>"
  "cube (setup_done e) = Some \<lparr> mesh_pos_x = 60, mesh_pos_y = - 20, mesh_pos_z = - 80,
                        mesh_rot_x = 0, mesh_rot_y = 0, mesh_rot_z = 0 \<rparr>"
  "pending (setup_done e) = []"
  "next_id (setup_done e) = 1"
  "listeners (setup_done e) = [BeforeUnload, Resize, VisibilityChange, Scroll]"
  "scrollProgress (setup_done e) = 0"
  "container (setup_done e) = (if env_has_container e then Some [Canvas] else None)"
  "body (setup_done e) = (if env_has_container e then [] else [Canvas])"
  by (simp_all add: setup_done_def setupScrollListener_def setupEventListeners_def
          createGeometries_def createParticles_def setupRenderer_def setupCamera_def
          setupScene_def mount_def new_page_def make_config_def Let_def)

lemma setup_done_particles:
  "particles_wf (setup_done e)"
  "positions_of (setup_done e) = positions_of (createParticles e (new_page e))"
  "particleVelocities (setup_done e) = particleVelocities (createParticles e (new_page e))"
  by (simp_all add: setup_done_def setupScrollListener_def setupEventListeners_def
          createGeometries_def createParticles_def setupRenderer_def setupCamera_def
          setupScene_def mount_def particles_wf_def positions_of_def Let_def
        split: option.split)


lemma updateParticles_pause:
  "positions_of (updateParticles (pause w)) = positions_of (updateParticles w)"
  "particleVelocities (updateParticles (pause w)) = particleVelocities (updateParticles w)"
  by (simp_all add: updateParticles_def positions_of_def Let_def split: option.split)

lemma animate_wf:
  "particles_wf (snd (animate w)) = particles_wf (updateParticles w)"
  by (simp add: animate_state particles_wf_def updateParticles_def positions_of_def Let_def
        rotate_particleSystem_def rotate_torus_def split: option.split)

lemma sinking_env_supported:
  "isWebGLSupported sinking_env" "\<not> env_throws sinking_env st"
  by (simp_all add: isWebGLSupported_def sinking_env_def)

lemma sinking_setup_facts:
  "particles_wf (setup_done sinking_env)"
  "length (positions_of (setup_done sinking_env)) = 3000"
  "positions_of (setup_done sinking_env) ! Suc 0 = - 100 + 1 / 20000"
  "particleVelocities (setup_done sinking_env) ! Suc 0 = - (3 / 25000)"
  using sinking_start_facts
  by (simp_all add: setup_done_particles sinking_start_def)

lemma sinking_page_facts:
  "constructor sinking_env = snd (animate (setup_done sinking_env))"
  "initialized (constructor sinking_env)"
  "renderer (constructor sinking_env) \<noteq> None"
  "particles_wf (constructor sinking_env)"
  "length (positions_of (constructor sinking_env)) = 3000"
  "positions_of (constructor sinking_env) ! Suc 0 = - 100 - 7 / 100000"
  "particleVelocities (constructor sinking_env) ! Suc 0 = 1 / 50000"
  "torus (constructor sinking_env) = Some \<lparr> mesh_pos_x = 0, mesh_pos_y = 0, mesh_pos_z = - 50,
                         mesh_rot_x = 1 / 1000, mesh_rot_y = 2 / 1000, mesh_rot_z = 0 \<rparr>"
  "camera (constructor sinking_env) = Some \<lparr> cam_pos_x = 0, cam_pos_y = 0, cam_pos_z = 100,
                         cam_rot_x = 0, cam_rot_y = 0 \<rparr>"
  "cube (constructor sinking_env) = Some \<lparr> mesh_pos_x = 60, mesh_pos_y = - 20, mesh_pos_z = - 80,
                        mesh_rot_x = 0, mesh_rot_y = 0, mesh_rot_z = 0 \<rparr>"
  "pending (constructor sinking_env) = [1]"
  "animationId (constructor sinking_env) = Some 1"
  "next_id (constructor sinking_env) = 2"
  "listeners (constructor sinking_env) = [BeforeUnload, Resize, VisibilityChange, Scroll]"
proof -
  show c: "constructor sinking_env = snd (animate (setup_done sinking_env))"
    by (rule constructor_supported(1) [OF sinking_env_supported])
  have a: "- 100 + 1 / 20000 + - (3 / 25000) < (- 100 :: real)" by simp
  note s1 = sinking_step [OF sinking_setup_facts a]
  show "initialized (constructor sinking_env)" "renderer (constructor sinking_env) \<noteq> None"
       "particles_wf (constructor sinking_env)"
       "length (positions_of (constructor sinking_env)) = 3000"
       "positions_of (constructor sinking_env) ! Suc 0 = - 100 - 7 / 100000"
       "particleVelocities (constructor sinking_env) ! Suc 0 = 1 / 50000"
    unfolding c using s1 by (simp_all add: animate_fields animate_wf setup_done_fields)
  show "torus (constructor sinking_env) = Some \<lparr> mesh_pos_x = 0, mesh_pos_y = 0, mesh_pos_z = - 50,
                         mesh_rot_x = 1 / 1000, mesh_rot_y = 2 / 1000, mesh_rot_z = 0 \<rparr>"
       "camera (constructor sinking_env) = Some \<lparr> cam_pos_x = 0, cam_pos_y = 0, cam_pos_z = 100,
                         cam_rot_x = 0, cam_rot_y = 0 \<rparr>"
       "cube (constructor sinking_env) = Some \<lparr> mesh_pos_x = 60, mesh_pos_y = - 20, mesh_pos_z = - 80,
                        mesh_rot_x = 0, mesh_rot_y = 0, mesh_rot_z = 0 \<rparr>"
       "pending (constructor sinking_env) = [1]"
       "animationId (constructor sinking_env) = Some 1"
       "next_id (constructor sinking_env) = 2"
       "listeners (constructor sinking_env) = [BeforeUnload, Resize, VisibilityChange, Scroll]"
    unfolding c by (simp_all add: animate_fields setup_done_fields)
qed

lemma destroy_fields:
  "pending (destroy w) = pending (pause w)"
  "listeners (destroy w) = listeners w"
  "initialized (destroy w) = initialized w"
  "animationId (destroy w) = animationId w"
  "next_id (destroy w) = next_id w"
  "camera (destroy w) = camera w"
  "torus (destroy w) = torus w"
  "octahedron (destroy w) = octahedron w"
  "cube (destroy w) = cube w"
  "scrollProgress (destroy w) = scrollProgress w"
  "config (destroy w) = config w"
  "particleSystem (destroy w) = particleSystem w"
  "particleVelocities (destroy w) = particleVelocities w"
  "positions_of (destroy w) = positions_of w"
  "particles_wf (destroy w) = particles_wf w"
  "renderer (destroy w) = map_option (\<lambda>r. r\<lparr> rd_state := Disposed \<rparr>) (renderer w)"
  "scene (destroy w) = map_option (\<lambda>sc. Disposed) (scene w)"
  by (simp_all add: destroy_def Let_def positions_of_def particles_wf_def split: option.split)

lemma then_do_ok [simp]: "then_do r ok = r"
  by (cases r) (auto simp: then_do_def ok_def split: option.split)

lemma then_do_ok_left [simp]: "then_do (ok w) f = f w"
  by (simp add: then_do_def ok_def)

lemma repeat_zero [simp]: "repeat 0 f = ok"
  by (rule ext) simp

lemma repeat_once: "repeat (Suc 0) f w = f w"
  by simp

lemma on_scroll_ok:
  assumes "camera w = Some c" "scroll_progress d h y = Some p"
  shows "on_scroll d h y w =
           ok (updateParallax (w\<lparr> scrollProgress := p, camera := Some (camera_on_scroll p c) \<rparr>))"
  using assms by (simp add: on_scroll_def updateCameraOnScroll_def then_do_def ok_def)

lemma updateParallax_fields:
  "camera (updateParallax w) = camera w"
  "cube (updateParallax w) =
     map_option (\<lambda>cb. cb\<lparr> mesh_pos_y := - 50 + scrollProgress w * 100,
                           mesh_rot_x := mesh_rot_x cb + 0.002,
                           mesh_rot_z := mesh_rot_z cb + 0.004 \<rparr>) (cube w)"
  by (simp_all add: updateParallax_def Let_def split: option.split)

text \<open>
  C4, as stated: pausing and then resuming an initialized instance, with no frame in
  between, leaves particle positions and decorative-object rotations unchanged. On the
  page \<open>sinking_env\<close>, right after construction, the torus rotation goes from 0.001 to
  0.002 and the first particle's \<open>y\<close> from -100.00007 to -100.00005.
\<close>

theorem pause_resume_unchanged_counterexample:
  "initialized (constructor sinking_env)
   \<and> map_option mesh_rot_x (torus (constructor sinking_env)) = Some (1 / 1000)
   \<and> map_option mesh_rot_x (torus (snd (resume (pause (constructor sinking_env))))) = Some (2 / 1000)
   \<and> positions_of (constructor sinking_env) ! Suc 0 = - 100 - 7 / 100000
   \<and> positions_of (snd (resume (pause (constructor sinking_env)))) ! Suc 0 = - 100 - 1 / 20000"
proof -
  let ?w = "constructor sinking_env"
  have r: "resume (pause ?w) = animate (pause ?w)"
    by (simp add: resume_def sinking_page_facts(2))
  have k: "Suc 0 < length (positions_of ?w)" by (simp add: sinking_page_facts(5))
  have "positions_of (snd (animate (pause ?w))) ! Suc 0 = - 100 - 7 / 100000 + 1 / 50000"
    using updateParticles_nth(1) [OF sinking_page_facts(4) k]
    by (simp add: animate_fields updateParticles_pause sinking_page_facts(6,7))
  then show ?thesis
    unfolding r by (simp add: animate_fields sinking_page_facts(2,6,8))
qed

text \<open>
  C4, amended: \<open>pause\<close> changes no particle, decorative object or camera; \<open>resume\<close> on
  an initialized instance is one synchronous call of \<open>animate\<close>, so pausing and then
  resuming applies exactly one frame update: the particle buffers are those after one
  \<open>updateParticles\<close> (each position advanced by its velocity once), the torus rotation
  advances by (0.001, 0.002), octahedron, cube and camera are unchanged, and one new
  frame is requested.
\<close>

theorem pause_resume_one_tick:
  assumes "initialized w" and "renderer w \<noteq> None"
      and "particles_wf w" and "k < length (positions_of w)"
  shows "positions_of (pause w) = positions_of w
       \<and> particleVelocities (pause w) = particleVelocities w
       \<and> torus (pause w) = torus w \<and> octahedron (pause w) = octahedron w
       \<and> cube (pause w) = cube w \<and> camera (pause w) = camera w
       \<and> resume (pause w) = animate (pause w)
       \<and> fst (resume (pause w)) = None
       \<and> positions_of (snd (resume (pause w))) = positions_of (updateParticles w)
       \<and> particleVelocities (snd (resume (pause w))) = particleVelocities (updateParticles w)
       \<and> positions_of (snd (resume (pause w))) ! k = positions_of w ! k + particleVelocities w ! k
       \<and> torus (snd (resume (pause w))) =
           map_option (\<lambda>t. t\<lparr> mesh_rot_x := mesh_rot_x t + 0.001,
                                mesh_rot_y := mesh_rot_y t + 0.002 \<rparr>) (torus w)
       \<and> octahedron (snd (resume (pause w))) = octahedron w
       \<and> cube (snd (resume (pause w))) = cube w
       \<and> camera (snd (resume (pause w))) = camera w
       \<and> pending (snd (resume (pause w))) = pending (pause w) @ [next_id w]"
proof -
  have r: "resume (pause w) = animate (pause w)" using assms(1) by (simp add: resume_def)
  have e: "fst (animate (pause w)) = None" using assms(2) by (simp add: animate_no_error)
  show ?thesis
    unfolding r using e updateParticles_nth(1) [OF assms(3,4)]
    by (simp add: animate_fields updateParticles_pause)
qed


theorem pause_resume_one_tick_witness:
  "initialized (constructor sinking_env) \<and> renderer (constructor sinking_env) \<noteq> None
   \<and> particles_wf (constructor sinking_env)
   \<and> Suc 0 < length (positions_of (constructor sinking_env))
   \<and> fst (resume (pause (constructor sinking_env))) = None
   \<and> positions_of (snd (resume (pause (constructor sinking_env)))) ! Suc 0 = - 100 - 1 / 20000
   \<and> pending (snd (resume (pause (constructor sinking_env)))) = [2]"
proof -
  let ?w = "constructor sinking_env"
  have k: "Suc 0 < length (positions_of ?w)" by (simp add: sinking_page_facts(5))
  show ?thesis
    using pause_resume_one_tick [OF sinking_page_facts(2,3,4) k] k
    by (auto simp: sinking_page_facts(2-) pause_pending)
qed


text \<open>
  C1, as stated: after \<open>destroy\<close> no signal or frame runs a particle, decorative-object
  or camera update. On the page \<open>sinking_env\<close>, after construction and \<open>destroy\<close>, a
  scroll signal still moves the camera and the cube, and a visibility change to visible
  runs \<open>animate\<close> again: the particles move and a new frame is pending.
\<close>

theorem destroy_stops_updates_counterexample:
  "camera (destroy (constructor sinking_env))
     = Some \<lparr> cam_pos_x = 0, cam_pos_y = 0, cam_pos_z = 100, cam_rot_x = 0, cam_rot_y = 0 \<rparr>
   \<and> fst (dispatch (ScrollEv 3000 1000 0) (destroy (constructor sinking_env))) = None
   \<and> camera (snd (dispatch (ScrollEv 3000 1000 0) (destroy (constructor sinking_env))))
     = Some \<lparr> cam_pos_x = 0, cam_pos_y = 20, cam_pos_z = 150, cam_rot_x = 0, cam_rot_y = 0 \<rparr>
   \<and> map_option mesh_pos_y (cube (destroy (constructor sinking_env))) = Some (- 20)
   \<and> map_option mesh_pos_y
        (cube (snd (dispatch (ScrollEv 3000 1000 0) (destroy (constructor sinking_env)))))
     = Some (- 50)
   \<and> pending (destroy (constructor sinking_env)) = []
   \<and> positions_of (destroy (constructor sinking_env)) ! Suc 0 = - 100 - 7 / 100000
   \<and> positions_of (snd (dispatch (VisibilityEv False) (destroy (constructor sinking_env)))) ! Suc 0
     = - 100 - 1 / 20000
   \<and> pending (snd (dispatch (VisibilityEv False) (destroy (constructor sinking_env)))) = [2]"
proof -
  let ?w = "constructor sinking_env" and ?d = "destroy (constructor sinking_env)"
  let ?c = "\<lparr> cam_pos_x = 0, cam_pos_y = 0, cam_pos_z = 100, cam_rot_x = 0, cam_rot_y = 0 \<rparr>"
  have cam: "camera ?d = Some ?c" by (simp add: destroy_fields sinking_page_facts(9))
  have sp: "scroll_progress 3000 1000 0 = Some 0"
    by (simp add: scroll_progress_def js_div_def)
  have sc: "dispatch (ScrollEv 3000 1000 0) ?d =
              ok (updateParallax (?d\<lparr> scrollProgress := 0, camera := Some (camera_on_scroll 0 ?c) \<rparr>))"
    using on_scroll_ok [OF cam sp]
    by (simp add: destroy_fields sinking_page_facts(14) repeat_once)
  have vis: "dispatch (VisibilityEv False) ?d = animate ?d"
    by (simp add: destroy_fields sinking_page_facts(2,14) repeat_once onVisibilityChange_def
          resume_def)
  have k: "Suc 0 < length (positions_of ?d)" by (simp add: destroy_fields sinking_page_facts(5))
  have wf: "particles_wf ?d" by (simp add: destroy_fields sinking_page_facts(4))
  have pos: "positions_of (snd (animate ?d)) ! Suc 0 = - 100 - 7 / 100000 + 1 / 50000"
    using updateParticles_nth(1) [OF wf k]
    by (simp add: animate_fields destroy_fields sinking_page_facts(6,7))
  have pend: "pending ?d = []"
    by (simp add: destroy_fields pause_pending sinking_page_facts(11,12))
  show ?thesis
    unfolding sc vis using pos pend
    by (simp add: ok_def updateParallax_fields camera_on_scroll_def destroy_fields
          sinking_page_facts(6,9,10,13) animate_fields)
qed


text \<open>
  C1, amended: \<open>destroy\<close> cancels the frame request recorded in \<open>animationId\<close>; when
  that is the only pending request, none is pending afterwards and a frame runs no
  update. It disposes the renderer and the scene, and changes nothing else: all
  subscriptions stay attached, \<open>initialized\<close> keeps its value, and camera, particles
  and decorative objects are as they were.
\<close>

theorem destroy_cancels_frame_only:
  assumes "animationId w = Some h" and "h \<noteq> 0"
  shows "pending (destroy w) = removeAll h (pending w)
       \<and> (set (pending w) \<subseteq> {h} \<longrightarrow>
            pending (destroy w) = [] \<and> dispatch FrameEv (destroy w) = ok (destroy w))
       \<and> listeners (destroy w) = listeners w
       \<and> initialized (destroy w) = initialized w
       \<and> renderer (destroy w) = map_option (\<lambda>r. r\<lparr> rd_state := Disposed \<rparr>) (renderer w)
       \<and> scene (destroy w) = map_option (\<lambda>sc. Disposed) (scene w)
       \<and> camera (destroy w) = camera w
       \<and> positions_of (destroy w) = positions_of w
       \<and> particleVelocities (destroy w) = particleVelocities w
       \<and> torus (destroy w) = torus w \<and> octahedron (destroy w) = octahedron w
       \<and> cube (destroy w) = cube w"
proof -
  have p: "pending (destroy w) = removeAll h (pending w)"
    using assms by (simp add: destroy_fields pause_pending)
  have "dispatch FrameEv (destroy w) = ok (destroy w)" if "set (pending w) \<subseteq> {h}"
  proof -
    have "removeAll h (pending w) = []" using that by (auto simp: removeAll_filter_not_eq filter_empty_conv)
    with p have e: "pending (destroy w) = []" by simp
    have "(destroy w)\<lparr> pending := pending (destroy w) \<rparr> = destroy w" by simp
    then have eq: "(destroy w)\<lparr> pending := [] \<rparr> = destroy w" unfolding e .
    show ?thesis by (simp add: e eq)
  qed
  moreover have "pending (destroy w) = []" if "set (pending w) \<subseteq> {h}"
    using that p by (auto simp: removeAll_filter_not_eq filter_empty_conv)
  ultimately show ?thesis using p by (simp add: destroy_fields)
qed

theorem destroy_cancels_frame_only_witness:
  "animationId (constructor sinking_env) = Some 1 \<and> (1::nat) \<noteq> 0
   \<and> set (pending (constructor sinking_env)) \<subseteq> {1}
   \<and> pending (destroy (constructor sinking_env)) = []
   \<and> dispatch FrameEv (destroy (constructor sinking_env)) = ok (destroy (constructor sinking_env))
   \<and> listeners (destroy (constructor sinking_env)) = [BeforeUnload, Resize, VisibilityChange, Scroll]
   \<and> initialized (destroy (constructor sinking_env))"
proof -
  have n: "(1::nat) \<noteq> 0" by simp
  show ?thesis
    using destroy_cancels_frame_only [OF sinking_page_facts(12) n]
    by (auto simp: sinking_page_facts(2-))
qed



section \<open>Properties of the HTTP helper\<close>

lemma request_success:
  "attempt net data st = (Inr j, st') \<Longrightarrow> request net data r st = (Inr j, st')"
  by (subst request.simps) simp

lemma request_retry:
  "attempt net data st = (Inl err, st') \<Longrightarrow> r < maxRetries \<Longrightarrow>
   request net data r st = request net data (r + 1) (st'\<lparr> waited := waited st' + retryDelay \<rparr>)"
  by (subst request.simps) simp

lemma request_exhausted:
  "attempt net data st = (Inl err, st') \<Longrightarrow> \<not> r < maxRetries \<Longrightarrow>
   request net data r st = (Inl err, st')"
  by (subst request.simps) simp

lemma attempt_fetches:
  "fetches (snd (attempt net data st)) \<le> fetches st + 1"
  by (simp add: attempt_def)

lemma request_fetches_bound:
  "fetches (snd (request net data r st)) \<le> fetches st + 1 + (maxRetries - r)"
proof (induction net data r st rule: request.induct)
  case (1 net data r st)
  obtain res st' where a: "attempt net data st = (res, st')" by (cases "attempt net data st")
  have f: "fetches st' \<le> fetches st + 1" using attempt_fetches [of net data st] a by simp
  show ?case
  proof (cases res)
    case (Inr j)
    with a f show ?thesis by (simp add: request_success)
  next
    case (Inl err)
    show ?thesis
    proof (cases "r < maxRetries")
      case True
      have "fetches (snd (request net data (r + 1) (st'\<lparr> waited := waited st' + retryDelay \<rparr>)))
              \<le> fetches st' + 1 + (maxRetries - (r + 1))"
        using "1.IH" [OF a [symmetric] Inl True] by simp
      with f True show ?thesis using a Inl by (simp add: request_retry)
    next
      case False
      with a Inl f show ?thesis by (simp add: request_exhausted)
    qed
  qed
qed

lemma request_first_success:
  assumes "data \<noteq> Unserialisable" "r + k \<le> maxRetries"
      and "\<forall>i<k. isl (settle (net (f + i)))" "settle (net (f + k)) = Inr j"
  shows "request net data r \<lparr> fetches = f, waited = x \<rparr>
           = (Inr j, \<lparr> fetches = f + k + 1, waited = x + k * retryDelay \<rparr>)"
  using assms
proof (induction k arbitrary: r f x)
  case 0
  then show ?case by (simp add: request_success attempt_def)
next
  case (Suc k)
  from Suc.prems(3) have "isl (settle (net f))" by force
  then obtain err where e: "settle (net f) = Inl err" by (cases "settle (net f)") auto
  have a: "attempt net data \<lparr> fetches = f, waited = x \<rparr> = (Inl err, \<lparr> fetches = f + 1, waited = x \<rparr>)"
    using Suc.prems(1) e by (simp add: attempt_def)
  have r: "r < maxRetries" using Suc.prems(2) by simp
  have IH: "request net data (r + 1) \<lparr> fetches = f + 1, waited = x + retryDelay \<rparr>
              = (Inr j, \<lparr> fetches = f + 1 + k + 1, waited = x + retryDelay + k * retryDelay \<rparr>)"
  proof (rule Suc.IH [OF Suc.prems(1)])
    show "r + 1 + k \<le> maxRetries" using Suc.prems(2) by simp
    show "\<forall>i<k. isl (settle (net (f + 1 + i)))" using Suc.prems(3) by force
    show "settle (net (f + 1 + k)) = Inr j" using Suc.prems(4) by simp
  qed
  show ?case
    unfolding request_retry [OF a r] using IH by simp
qed

lemma request_all_fail:
  assumes "data \<noteq> Unserialisable" "r \<le> maxRetries"
      and "\<forall>i\<le>maxRetries - r. settle (net (f + i)) = Inl (errs (r + i))"
  shows "request net data r \<lparr> fetches = f, waited = x \<rparr>
           = (Inl (errs maxRetries),
              \<lparr> fetches = f + (maxRetries - r) + 1, waited = x + (maxRetries - r) * retryDelay \<rparr>)"
  using assms
proof (induction "maxRetries - r" arbitrary: r f x)
  case 0
  then have r: "r = maxRetries" by simp
  have a: "attempt net data \<lparr> fetches = f, waited = x \<rparr>
             = (Inl (errs maxRetries), \<lparr> fetches = f + 1, waited = x \<rparr>)"
    using "0.prems"(1) spec [OF "0.prems"(3), of 0] r by (simp add: attempt_def)
  show ?case using request_exhausted [OF a, of r] r by simp
next
  case (Suc n)
  then have r: "r < maxRetries" by simp
  have a: "attempt net data \<lparr> fetches = f, waited = x \<rparr>
             = (Inl (errs r), \<lparr> fetches = f + 1, waited = x \<rparr>)"
    using Suc.prems(1) spec [OF Suc.prems(3), of 0] by (simp add: attempt_def)
  have IH: "request net data (r + 1) \<lparr> fetches = f + 1, waited = x + retryDelay \<rparr>
              = (Inl (errs maxRetries),
                 \<lparr> fetches = f + 1 + (maxRetries - (r + 1)) + 1,
                   waited = x + retryDelay + (maxRetries - (r + 1)) * retryDelay \<rparr>)"
  proof (rule Suc.hyps(1) [OF _ Suc.prems(1)])
    show "n = maxRetries - (r + 1)" using Suc.hyps(2) by simp
    show "r + 1 \<le> maxRetries" using r by simp
    show "\<forall>i\<le>maxRetries - (r + 1). settle (net (f + 1 + i)) = Inl (errs (r + 1 + i))"
    proof (intro allI impI)
      fix i assume "i \<le> maxRetries - (r + 1)"
      then have "Suc i \<le> maxRetries - r" using r by simp
      with Suc.prems(3) have "settle (net (f + Suc i)) = Inl (errs (r + Suc i))" by blast
      then show "settle (net (f + 1 + i)) = Inl (errs (r + 1 + i))" by simp
    qed
  qed
  have m: "maxRetries - r = Suc (maxRetries - (r + 1))" using r by simp
  show ?case
    unfolding request_retry [OF a r] m using IH by simp
qed

lemma request_unserialisable:
  "r \<le> maxRetries \<Longrightarrow>
   request net Unserialisable r \<lparr> fetches = f, waited = x \<rparr>
     = (Inl StringifyFailed, \<lparr> fetches = f, waited = x + (maxRetries - r) * retryDelay \<rparr>)"
proof (induction "maxRetries - r" arbitrary: r x)
  case 0
  have a: "attempt net Unserialisable \<lparr> fetches = f, waited = x \<rparr>
             = (Inl StringifyFailed, \<lparr> fetches = f, waited = x \<rparr>)"
    by (simp add: attempt_def)
  show ?case using request_exhausted [OF a, of r] 0 by simp
next
  case (Suc n)
  then have r: "r < maxRetries" by simp
  have a: "attempt net Unserialisable \<lparr> fetches = f, waited = x \<rparr>
             = (Inl StringifyFailed, \<lparr> fetches = f, waited = x \<rparr>)"
    by (simp add: attempt_def)
  have IH: "request net Unserialisable (r + 1) \<lparr> fetches = f, waited = x + retryDelay \<rparr>
     = (Inl StringifyFailed, \<lparr> fetches = f, waited = x + retryDelay + (maxRetries - (r + 1)) * retryDelay \<rparr>)"
    using Suc.hyps(1) [of "r + 1" "x + retryDelay"] Suc.hyps(2) r by simp
  have m: "maxRetries - r = Suc (maxRetries - (r + 1))" using r by simp
  show ?case
    unfolding request_retry [OF a r] m using IH by simp
qed


text \<open>
  C9: a call of \<open>API.request\<close> (through \<open>get\<close>, \<open>post\<close>, \<open>put\<close>, \<open>delete\<close>, hence with
  \<open>retries = 0\<close>; \<open>net\<close> stands for what the server answers to this method, endpoint
  and payload) makes at most \<open>1 + maxRetries = 4\<close> fetches. If the first attempt that
  succeeds is attempt \<open>k \<le> maxRetries\<close>, its parsed JSON is returned after exactly
  \<open>k + 1\<close> fetches and \<open>k\<close> waits of \<open>retryDelay\<close>; if the first \<open>1 + maxRetries\<close>
  attempts all fail, the error of the last one is rethrown after exactly
  \<open>1 + maxRetries\<close> fetches; a payload that cannot be serialised fails every attempt
  before its fetch. From any \<open>retries = r\<close> the number of further fetches is at most
  \<open>1 + (maxRetries - r)\<close>.
\<close>

theorem request_attempt_budget:
  "fetches (snd (request net data r st)) \<le> fetches st + 1 + (maxRetries - r)
   \<and> fetches (snd (api_call net data)) \<le> 1 + maxRetries \<and> 1 + maxRetries = 4
   \<and> (data \<noteq> Unserialisable \<and> k \<le> maxRetries \<and> (\<forall>i<k. isl (settle (net i)))
        \<and> settle (net k) = Inr j
      \<longrightarrow> api_call net data = (Inr j, \<lparr> fetches = k + 1, waited = k * retryDelay \<rparr>))
   \<and> (data \<noteq> Unserialisable \<and> (\<forall>i\<le>maxRetries. settle (net i) = Inl (errs i))
      \<longrightarrow> api_call net data
            = (Inl (errs maxRetries),
               \<lparr> fetches = 1 + maxRetries, waited = maxRetries * retryDelay \<rparr>))
   \<and> (data = Unserialisable
      \<longrightarrow> api_call net data
            = (Inl StringifyFailed, \<lparr> fetches = 0, waited = maxRetries * retryDelay \<rparr>))"
proof -
  have u: "api_call net Unserialisable
            = (Inl StringifyFailed, \<lparr> fetches = 0, waited = maxRetries * retryDelay \<rparr>)"
    using request_unserialisable [of 0 net 0 0] by (simp add: api_call_def)
  have b: "fetches (snd (api_call net data)) \<le> 1 + maxRetries"
    using request_fetches_bound [of net data 0 "\<lparr> fetches = 0, waited = 0 \<rparr>"]
    by (simp add: api_call_def)
  have s: "api_call net data = (Inr j, \<lparr> fetches = k + 1, waited = k * retryDelay \<rparr>)"
    if "data \<noteq> Unserialisable" "k \<le> maxRetries" "\<forall>i<k. isl (settle (net i))"
       "settle (net k) = Inr j"
    using request_first_success [of data 0 k net 0 j 0] that by (simp add: api_call_def)
  have f: "api_call net data
            = (Inl (errs maxRetries),
               \<lparr> fetches = 1 + maxRetries, waited = maxRetries * retryDelay \<rparr>)"
    if "data \<noteq> Unserialisable" "\<forall>i\<le>maxRetries. settle (net i) = Inl (errs i)"
    using request_all_fail [of data 0 net 0 errs 0] that by (simp add: api_call_def)
  show ?thesis
    using request_fetches_bound [of net data r st] b s f u by (auto simp: maxRetries_def)
qed

theorem request_attempt_budget_witness:
  "api_call (\<lambda>i. if i < 2 then None else Some \<lparr> resp_status = 200, resp_json = Some (7::nat) \<rparr>) Data
     = (Inr 7, \<lparr> fetches = 3, waited = 2000 \<rparr>)
   \<and> fetches (snd (api_call
        (\<lambda>i. if i < 2 then None else Some \<lparr> resp_status = 200, resp_json = Some (7::nat) \<rparr>) Data)) \<le> 4"
  using request_attempt_budget
    [of "\<lambda>i. if i < 2 then None else Some \<lparr> resp_status = 200, resp_json = Some (7::nat) \<rparr>"
        Data 0 "\<lparr> fetches = 0, waited = 0 \<rparr>" 2 7]
  by (simp add: settle_def resp_ok_def maxRetries_def retryDelay_def)


section \<open>Properties of the local-storage helper\<close>

lemma json_image_exact: "json_exact v \<Longrightarrow> json_image v = Some v"
proof (induction v rule: json_image.induct)
  case (11 xs)
  then have "\<forall>x\<in>set xs. json_image x = Some x" by (auto simp: list_all_iff)
  then have "map (\<lambda>x. case json_image x of None \<Rightarrow> Null | Some j \<Rightarrow> j) xs = xs"
    by (induction xs) auto
  then show ?case by simp
next
  case (12 kvs)
  then have "\<forall>kv\<in>set kvs. json_image (snd kv) = Some (snd kv)" by (auto simp: list_all_iff)
  then have "concat (map (\<lambda>kv. case json_image (snd kv) of None \<Rightarrow> [] | Some j \<Rightarrow> [(fst kv, j)]) kvs) = kvs"
    by (induction kvs) auto
  then show ?case by simp
qed simp_all

lemma Storage_get_blocked: "Storage_get tn key now Blocked = Inl SecurityErr"
  by (simp add: Storage_get_def getItem_def)

lemma Storage_get_total: "\<exists>r. Storage_get tn key now (Items m) = Inr r"
  by (simp add: Storage_get_def getItem_def split: option.split sum.split)

lemma Storage_get_absent:
  "m key = None \<Longrightarrow> Storage_get tn key now (Items m) = Inr (Null, Items m)"
  by (simp add: Storage_get_def getItem_def)

lemma Storage_get_unparseable:
  "m key = Some EmptyText \<or> m key = Some Malformed \<Longrightarrow>
   Storage_get tn key now (Items m) = Inr (Null, Items m)"
  by (auto simp: Storage_get_def getItem_def get_try_def JSON_parse_def)

lemma Storage_get_expired:
  "m key = Some (Json (Object kvs)) \<Longrightarrow> map_of kvs ''expiry'' = Some (Number t) \<Longrightarrow>
   t \<noteq> 0 \<Longrightarrow> t < now \<Longrightarrow>
   Storage_get tn key now (Items m) = Inr (Null, Items (m(key := None)))"
  by (simp add: Storage_get_def getItem_def get_try_def JSON_parse_def get_prop_def truthy_def
        now_after_def Storage_remove_def removeItem_def)

lemma Storage_set_result:
  "Storage_set fits key v expiryMinutes now ls = Inr ls' \<longleftrightarrow>
     (\<exists>m. ls = Items m \<and> fits m key (entry_of v expiryMinutes now)
          \<and> ls' = Items (m(key \<mapsto> entry_of v expiryMinutes now)))"
  by (cases ls)
     (auto simp: Storage_set_def setItem_def JSON_stringify_def entry_of_def Let_def
           split: option.split)

lemma Storage_get_entry:
  "Storage_get tn key now' (Items (m(key \<mapsto> entry_of v expiryMinutes now))) =
     (if set_expired expiryMinutes now now'
      then Inr (Null, Items (m(key := None)))
      else Inr (case json_image v of None \<Rightarrow> Undefined | Some j \<Rightarrow> j,
                Items (m(key \<mapsto> entry_of v expiryMinutes now))))"
  by (auto simp: Storage_get_def getItem_def entry_of_def get_try_def JSON_parse_def get_prop_def
        truthy_def now_after_def Storage_remove_def removeItem_def set_expired_def
        split: option.split)

text \<open>
  C10, as stated: \<open>Storage.get\<close> never throws, and for an unexpired entry it returns
  exactly the value passed to \<open>Storage.set\<close>. When the page may not use
  \<open>localStorage\<close>, \<open>Storage.get('k')\<close> raises the \<open>SecurityError\<close> of \<open>getItem\<close>, which is
  called before the \<open>try\<close>. And after \<open>Storage.set('k', NaN)\<close> the text stored is
  \<open>{"value":null}\<close> and \<open>Storage.get('k')\<close> returns \<open>null\<close>, which is not \<open>NaN\<close>.
\<close>

theorem storage_get_set_roundtrip_counterexample:
  "Storage_get (\<lambda>v. None) ''k'' 10 Blocked = Inl SecurityErr
   \<and> Storage_set (\<lambda>m k t. True) ''k'' NaN None 0 (Items Map.empty)
       = Inr (Items [''k'' \<mapsto> Json (Object [(''value'', Null)])])
   \<and> Storage_get (\<lambda>v. None) ''k'' 10 (Items [''k'' \<mapsto> Json (Object [(''value'', Null)])])
       = Inr (Null, Items [''k'' \<mapsto> Json (Object [(''value'', Null)])])
   \<and> Null \<noteq> NaN"
  by (simp add: Storage_get_def getItem_def Storage_set_def setItem_def JSON_stringify_def
        get_try_def JSON_parse_def get_prop_def truthy_def)

text \<open>
  C10, amended: \<open>Storage.get\<close> raises exactly when \<open>localStorage.getItem\<close> does (the
  storage is blocked); whenever that read returns, \<open>Storage.get\<close> does not raise. It
  then returns \<open>null\<close> when the key is absent, when the stored text is empty or not
  parseable JSON, and when the stored object carries a non-zero expiry timestamp earlier
  than the current time, in which case it also removes the entry. After a
  \<open>Storage.set(key, value, expiryMinutes)\<close> that returned, it returns \<open>null\<close> and removes
  the entry if that entry has expired, and otherwise returns what JSON serialisation
  makes of \<open>value\<close> (\<open>undefined\<close> when it makes nothing of it), which is exactly \<open>value\<close>
  for every value JSON carries unchanged.
\<close>

theorem storage_get_total_roundtrip:
  "Storage_get tn key now Blocked = Inl SecurityErr
   \<and> (\<exists>r. Storage_get tn key now (Items m) = Inr r)
   \<and> (m key = None \<longrightarrow> Storage_get tn key now (Items m) = Inr (Null, Items m))
   \<and> (m key = Some EmptyText \<or> m key = Some Malformed
        \<longrightarrow> Storage_get tn key now (Items m) = Inr (Null, Items m))
   \<and> (m key = Some (Json (Object kvs)) \<and> map_of kvs ''expiry'' = Some (Number t)
        \<and> t \<noteq> 0 \<and> t < now
        \<longrightarrow> Storage_get tn key now (Items m) = Inr (Null, Items (m(key := None))))
   \<and> (Storage_set fits key v expiryMinutes t0 (Items m) = Inr ls'
        \<and> set_expired expiryMinutes t0 now
        \<longrightarrow> Storage_get tn key now ls' = Inr (Null, Items (m(key := None))))
   \<and> (Storage_set fits key v expiryMinutes t0 (Items m) = Inr ls'
        \<and> \<not> set_expired expiryMinutes t0 now
        \<longrightarrow> Storage_get tn key now ls'
            = Inr (case json_image v of None \<Rightarrow> Undefined | Some j \<Rightarrow> j, ls'))
   \<and> (Storage_set fits key v expiryMinutes t0 (Items m) = Inr ls'
        \<and> \<not> set_expired expiryMinutes t0 now \<and> json_exact v
        \<longrightarrow> Storage_get tn key now ls' = Inr (v, ls'))"
proof -
  have s: "Storage_get tn key now ls' =
     (if set_expired expiryMinutes t0 now
      then Inr (Null, Items (m(key := None)))
      else Inr (case json_image v of None \<Rightarrow> Undefined | Some j \<Rightarrow> j, ls'))"
    if "Storage_set fits key v expiryMinutes t0 (Items m) = Inr ls'"
    using that unfolding Storage_set_result by (auto simp: Storage_get_entry)
  show ?thesis
    using Storage_get_total [of tn key now m] Storage_get_absent [of m key tn now]
          Storage_get_unparseable [of m key tn now] Storage_get_expired [of m key kvs t now tn]
          json_image_exact [of v] s
    by (auto simp: Storage_get_blocked)
qed

theorem storage_get_total_roundtrip_witness:
  "\<not> set_expired (Some 5) 1000 2000
   \<and> json_exact (Object [(''name'', String ''ada''), (''visits'', Number 3)])
   \<and> Storage_set (\<lambda>m k t. True) ''user''
        (Object [(''name'', String ''ada''), (''visits'', Number 3)]) (Some 5) 1000 (Items Map.empty)
      = Inr (Items [''user'' \<mapsto> Json (Object
               [(''value'', Object [(''name'', String ''ada''), (''visits'', Number 3)]),
                (''expiry'', Number 301000)])])
   \<and> Storage_get (\<lambda>v. None) ''user'' 2000
        (Items [''user'' \<mapsto> Json (Object
               [(''value'', Object [(''name'', String ''ada''), (''visits'', Number 3)]),
                (''expiry'', Number 301000)])])
      = Inr (Object [(''name'', String ''ada''), (''visits'', Number 3)],
             Items [''user'' \<mapsto> Json (Object
               [(''value'', Object [(''name'', String ''ada''), (''visits'', Number 3)]),
                (''expiry'', Number 301000)])])
   \<and> set_expired (Some 5) 1000 400000
   \<and> Storage_get (\<lambda>v. None) ''user'' 400000
        (Items [''user'' \<mapsto> Json (Object
               [(''value'', Object [(''name'', String ''ada''), (''visits'', Number 3)]),
                (''expiry'', Number 301000)])])
      = Inr (Null, Items Map.empty)"
proof -
  let ?v = "Object [(''name'', String ''ada''), (''visits'', Number 3)]"
  let ?ls = "Items [''user'' \<mapsto> Json (Object [(''value'', ?v), (''expiry'', Number 301000)])]"
  have a: "\<not> set_expired (Some 5) 1000 2000" by (simp add: set_expired_def)
  have b: "json_exact ?v" by simp
  have c: "set_expired (Some 5) 1000 400000" by (simp add: set_expired_def)
  have d: "Storage_set (\<lambda>m k t. True) ''user'' ?v (Some 5) 1000 (Items Map.empty) = Inr ?ls"
    by (simp add: Storage_set_def setItem_def JSON_stringify_def)
  have e: "Map.empty(''user'' := None) = (Map.empty :: storage)" by simp
  show ?thesis
    using storage_get_total_roundtrip [of "\<lambda>v. None" "''user''" 2000 Map.empty "[]" 0
            "\<lambda>m k t. True" ?v "Some 5" 1000 ?ls]
          storage_get_total_roundtrip [of "\<lambda>v. None" "''user''" 400000 Map.empty "[]" 0
            "\<lambda>m k t. True" ?v "Some 5" 1000 ?ls]
          a b c d
    by simp
qed


end
